theory Spec2Isabelle
  imports Complex_Main "HOL-Library.Sublist" "HOL-Library.Option_ord"
    "HOL-Library.List_Lexorder" "HOL-Library.Multiset"
begin

section \<open>Strings as index.js uses them\<close>

text \<open>
  A JavaScript string is modelled as a \<open>string\<close>, the list of its code units; the
  operations below are the ones \<open>processIssues\<close> calls on issue bodies that work on any
  alphabet: \<open>indexOf\<close>, \<open>replace\<close> with a string pattern and \<open>split\<close> at the literal
  carriage-return/line-feed pair. The two built-ins that depend on Unicode tables,
  \<open>trim\<close> and \<open>toUpperCase\<close>, are parameters of the model (see \<open>env\<close> below).
\<close>

definition CR :: char where
  "CR = CHR 0x0D"

definition LF :: char where
  "LF = CHR 0x0A"

text \<open>\<open>s.indexOf(p)\<close>: the index of the first occurrence of \<open>p\<close> in \<open>s\<close>, or \<open>-1\<close>.\<close>

fun indexOf :: "string \<Rightarrow> string \<Rightarrow> int" where
  "indexOf [] p = (if p = [] then 0 else -1)"
| "indexOf (c # cs) p =
     (if prefix p (c # cs) then 0
      else (let r = indexOf cs p in if r < 0 then -1 else r + 1))"

text \<open>
  \<open>s.replace(p, r)\<close> with a string pattern: only the first occurrence is replaced.
  index.js always passes the empty string as \<open>r\<close>.
\<close>

fun replace :: "string \<Rightarrow> string \<Rightarrow> string \<Rightarrow> string" where
  "replace [] p r = (if p = [] then r else [])"
| "replace (c # cs) p r =
     (if prefix p (c # cs) then r @ drop (length p) (c # cs)
      else c # replace cs p r)"

text \<open>\<open>body.split('\r\n')\<close>: the body is cut at every CR LF pair, scanning from the left.\<close>

fun split_crlf :: "string \<Rightarrow> string list" where
  "split_crlf [] = [[]]"
| "split_crlf [c] = [[c]]"
| "split_crlf (c # d # cs) =
     (if c = CR \<and> d = LF then [] # split_crlf cs
      else (case split_crlf (d # cs) of
              [] \<Rightarrow> [[c]]
            | l # ls \<Rightarrow> (c # l) # ls))"

section \<open>Data model\<close>

text \<open>A date is its time value: milliseconds since the epoch.\<close>

type_synonym date = int

text \<open>One entry of \<open>issue.labels\<close>; the color is \<open>None\<close> when \<open>utilities.isString\<close> fails on it.\<close>

record label_entry =
  name :: string
  label_color :: "string option"

text \<open>
  An element of \<open>issues.items\<close>. The text fields that \<open>sanitizeStringNonNull\<close> guards and
  the body may be \<open>null\<close>; \<open>labels\<close> is \<open>None\<close> when \<open>utilities.isArray\<close> fails on it;
  \<open>createdAt\<close> is the time value of \<open>new Date(issue.createdAt)\<close>.
\<close>

record issue =
  issue_id :: int
  title :: "string option"
  issue_body :: "string option"
  issue_url :: "string option"
  htmlUrl :: "string option"
  issue_number :: int
  issue_state :: string
  createdAt :: date
  labels :: "label_entry list option"

text \<open>The Realm object of \<open>TaskSchema\<close>, one field per property; optional properties are options.\<close>

record task =
  task_text :: string
  start_date :: date
  duration :: int
  task_id :: int
  body :: string
  url :: string
  html_url :: string
  number :: int
  state :: string
  isDeleted :: bool
  task_type :: "string option"
  parent :: "int option"
  level :: "int option"
  progress :: "real option"
  task_open :: "bool option"
  end_date :: "date option"
  color :: "string option"
  label :: "string option"

text \<open>
  What index.js takes from \<open>config/config.js\<close>, \<open>utilities.js\<close> and the JavaScript
  library: the four keyword prefixes, two functions on the text that follows a keyword,
  and the string built-ins \<open>trim\<close> and \<open>toUpperCase\<close>. \<open>parseDate s\<close> stands for
  \<open>new Date(s)\<close> followed by the \<open>utilities.isDate\<close> test: \<open>None\<close> when the test fails.
  \<open>sanitizeFloat s\<close> is \<open>None\<close> when the text gives no number. Every theorem holds for
  whatever these functions are.
\<close>

record env =
  START_DATE_STRING :: string
  DUE_DATE_STRING :: string
  LABEL_STRING :: string
  PROGRESS_STRING :: string
  parseDate :: "string \<Rightarrow> date option"
  sanitizeFloat :: "string \<Rightarrow> real option"
  trim :: "string \<Rightarrow> string"
  toUpperCase :: "string \<Rightarrow> string"

text \<open>
  Modelled from the spec: \<open>utilities.sanitizeStringNonNull\<close> is not in index.js; the spec
  describes it as null-to-empty-string sanitization of the optional text fields.
\<close>

definition sanitizeStringNonNull :: "string option \<Rightarrow> string" where
  "sanitizeStringNonNull v = (case v of None \<Rightarrow> [] | Some s \<Rightarrow> s)"

section \<open>Keyword extraction (the body of the loop over \<open>issues.items\<close>)\<close>

text \<open>The local variables \<open>startDate\<close>, \<open>dueDate\<close>, \<open>label\<close>, \<open>color\<close>, \<open>progress\<close>.\<close>

record locals =
  startDate :: date
  dueDate :: "date option"
  v_label :: "string option"
  v_color :: "string option"
  v_progress :: "real option"

text \<open>The loop over \<open>issue.labels\<close>: every entry is visited, there is no \<open>break\<close>.\<close>

fun labelsLoop :: "env \<Rightarrow> label_entry list \<Rightarrow> string \<Rightarrow> locals \<Rightarrow> locals" where
  "labelsLoop e [] labelString v = v"
| "labelsLoop e (aLabel # rest) labelString v =
     labelsLoop e rest labelString
       (if name aLabel = labelString then
          (let v' = v\<lparr>v_label := Some (name aLabel)\<rparr> in
           case label_color aLabel of
             Some c \<Rightarrow> v'\<lparr>v_color := Some (CHR ''#'' # toUpperCase e c)\<rparr>
           | None \<Rightarrow> v')
        else v)"

text \<open>
  One iteration of the loop over \<open>lines\<close>: the four tests, in the order of the source.
  \<open>!line.indexOf(k)\<close> is true exactly when the index is 0. The result of \<open>replace\<close> is
  always a string, so the test \<open>utilities.isString(labelString)\<close> always passes.
\<close>

definition scanLine :: "env \<Rightarrow> label_entry list option \<Rightarrow> string \<Rightarrow> locals \<Rightarrow> locals" where
  "scanLine e lbls line v =
     (let v1 = (if indexOf line (START_DATE_STRING e) = 0 then
                  (case parseDate e (replace line (START_DATE_STRING e) []) of
                     Some d \<Rightarrow> v\<lparr>startDate := d\<rparr>
                   | None \<Rightarrow> v)
                else v);
          v2 = (if indexOf line (DUE_DATE_STRING e) = 0 then
                  (case parseDate e (replace line (DUE_DATE_STRING e) []) of
                     Some d \<Rightarrow> v1\<lparr>dueDate := Some d\<rparr>
                   | None \<Rightarrow> v1)
                else v1);
          v3 = (if indexOf line (LABEL_STRING e) = 0 then
                  (let labelString = trim e (replace line (LABEL_STRING e) []) in
                   case lbls of
                     Some ls \<Rightarrow> labelsLoop e ls labelString v2
                   | None \<Rightarrow> v2)
                else v2);
          v4 = (if indexOf line (PROGRESS_STRING e) = 0 then
                  v3\<lparr>v_progress := sanitizeFloat e (replace line (PROGRESS_STRING e) [])\<rparr>
                else v3)
      in v4)"

definition initialLocals :: "issue \<Rightarrow> locals" where
  "initialLocals i =
     \<lparr>startDate = createdAt i, dueDate = None, v_label = None, v_color = None,
      v_progress = None\<rparr>"

definition findKeywords :: "env \<Rightarrow> issue \<Rightarrow> locals" where
  "findKeywords e i =
     (case issue_body i of
        None \<Rightarrow> initialLocals i
      | Some b \<Rightarrow> fold (scanLine e (labels i)) (split_crlf b) (initialLocals i))"

text \<open>The object literal handed to \<open>realm.create\<close>; the four properties it omits are \<open>None\<close>.\<close>

definition taskOf :: "env \<Rightarrow> issue \<Rightarrow> task" where
  "taskOf e i =
     (let v = findKeywords e i in
      \<lparr>task_text = sanitizeStringNonNull (title i),
       start_date = startDate v,
       duration = 1,
       task_id = issue_id i,
       body = sanitizeStringNonNull (issue_body i),
       url = sanitizeStringNonNull (issue_url i),
       html_url = sanitizeStringNonNull (htmlUrl i),
       number = issue_number i,
       state = issue_state i,
       isDeleted = False,
       task_type = None,
       parent = None,
       level = None,
       progress = v_progress v,
       task_open = None,
       end_date = dueDate v,
       color = v_color v,
       label = v_label v\<rparr>)"

section \<open>The Realm of tasks\<close>

text \<open>
  The Realm file holds one table of \<open>Task\<close> objects with primary key \<open>id\<close>: a list of rows,
  in table order. Realm keeps the primary key unique; the theorems below that depend on
  it assume \<open>distinct (map task_id rows)\<close> and show that every operation keeps it.
\<close>

datatype error = TypeError

text \<open>\<open>realm.objectForPrimaryKey('Task', k)\<close>: \<open>None\<close> is \<open>undefined\<close>.\<close>

definition objectForPrimaryKey :: "task list \<Rightarrow> int \<Rightarrow> task option" where
  "objectForPrimaryKey rows k = find (\<lambda>t. task_id t = k) rows"

text \<open>Writing through a live object: the row with primary key \<open>k\<close> is changed in place.\<close>

fun modify :: "(task \<Rightarrow> task) \<Rightarrow> int \<Rightarrow> task list \<Rightarrow> task list" where
  "modify f k [] = []"
| "modify f k (t # ts) = (if task_id t = k then f t # ts else t # modify f k ts)"

text \<open>
  \<open>realm.create('Task', props, true)\<close> on an existing object sets the properties that
  \<open>props\<close> lists and keeps the others: \<open>type\<close>, \<open>parent\<close>, \<open>level\<close> and \<open>open\<close> are not in
  the object literal of \<open>processIssues\<close>.
\<close>

definition assign :: "task \<Rightarrow> task \<Rightarrow> task" where
  "assign props t =
     t\<lparr>task_text := task_text props,
       start_date := start_date props,
       duration := duration props,
       task_id := task_id props,
       body := body props,
       url := url props,
       html_url := html_url props,
       number := number props,
       state := state props,
       isDeleted := isDeleted props,
       end_date := end_date props,
       label := label props,
       color := color props,
       progress := progress props\<rparr>"

definition create :: "task \<Rightarrow> task list \<Rightarrow> task list" where
  "create props rows =
     (case objectForPrimaryKey rows (task_id props) of
        None \<Rightarrow> rows @ [props]
      | Some _ \<Rightarrow> modify (assign props) (task_id props) rows)"

text \<open>
  The body of the second \<open>realm.write\<close>: for each id the object is looked up and its
  \<open>isDeleted\<close> is set. Setting a property of \<open>undefined\<close> raises a TypeError; \<open>realm.write\<close>
  then cancels the transaction, so \<open>Inl\<close> leaves the table as it was before the call.
\<close>

fun markDeleted :: "int list \<Rightarrow> task list \<Rightarrow> error + task list" where
  "markDeleted [] rows = Inr rows"
| "markDeleted (deletedId # rest) rows =
     (case objectForPrimaryKey rows deletedId of
        None \<Rightarrow> Inl TypeError
      | Some _ \<Rightarrow> markDeleted rest (modify (\<lambda>t. t\<lparr>isDeleted := True\<rparr>) deletedId rows))"

section \<open>processIssues\<close>

text \<open>
  The pages octokat delivers: \<open>Final items\<close> has no \<open>nextPageUrl\<close>; \<open>More items rest\<close> has
  one and \<open>nextPage.fetch()\<close> resolves with \<open>rest\<close>; \<open>Broken items\<close> has one and the fetch
  is rejected, so the \<open>then\<close> callback never runs.
\<close>

datatype pages =
  Final "issue list"
| More "issue list" pages
| Broken "issue list"

text \<open>The write transactions and the completion call, in the order they happen.\<close>

datatype event = Upsert int | Tombstone "int list" | Completion

datatype status = Completed | Fetch_rejected | Write_raised error

record run =
  realm :: "task list"
  idArray :: "int list"
  log :: "event list"

text \<open>The loop over \<open>issues.items\<close>: one write transaction per issue, then the push.\<close>

fun itemsLoop :: "env \<Rightarrow> issue list \<Rightarrow> run \<Rightarrow> run" where
  "itemsLoop e [] r = r"
| "itemsLoop e (i # rest) r =
     itemsLoop e rest
       \<lparr>realm = create (taskOf e i) (realm r),
        idArray = idArray r @ [issue_id i],
        log = log r @ [Upsert (issue_id i)]\<rparr>"

text \<open>The \<open>else\<close> branch: prune the deleted issues, then call \<open>completion\<close>.\<close>

definition prune :: "run \<Rightarrow> status \<times> run" where
  "prune r =
     (let oldIds = map task_id (realm r);
          deletedIds = filter (\<lambda>el. el \<notin> set (idArray r)) oldIds
      in case markDeleted deletedIds (realm r) of
           Inl err \<Rightarrow> (Write_raised err, r)
         | Inr rows \<Rightarrow>
             (Completed, r\<lparr>realm := rows, log := log r @ [Tombstone deletedIds, Completion]\<rparr>))"

fun processIssues :: "env \<Rightarrow> pages \<Rightarrow> run \<Rightarrow> status \<times> run" where
  "processIssues e (Final items) r = prune (itemsLoop e items r)"
| "processIssues e (More items rest) r = processIssues e rest (itemsLoop e items r)"
| "processIssues e (Broken items) r = (Fetch_rejected, itemsLoop e items r)"

text \<open>
  The call of \<open>/refreshData\<close>: no \<open>idArray\<close> is passed, so the test at the head of
  \<open>processIssues\<close> starts it as \<open>[]\<close>; the recursive calls pass the array on. \<open>sync\<close> is
  the table the call leaves behind.
\<close>

definition refreshData :: "env \<Rightarrow> pages \<Rightarrow> task list \<Rightarrow> status \<times> run" where
  "refreshData e issues rows = processIssues e issues \<lparr>realm = rows, idArray = [], log = []\<rparr>"

definition sync :: "env \<Rightarrow> pages \<Rightarrow> task list \<Rightarrow> task list" where
  "sync e issues rows = realm (snd (refreshData e issues rows))"

section \<open>getTaskChartData and the issue URL\<close>

text \<open>
  \<open>filtered(...)\<close> keeps the rows that satisfy the query; each \<open>sorted\<close> call is a stable
  sort of the results it is applied to, so the later call gives the primary order.
  Realm sorts \<open>null\<close> before every string; the order of strings is the parameter
  \<open>collate\<close>, a key into a linear order.
\<close>

definition chartFilter :: "task \<Rightarrow> bool" where
  "chartFilter t = (isDeleted t = False \<and> state t = ''open'' \<and> end_date t \<noteq> None)"

definition chartTasks :: "(string \<Rightarrow> 'k::linorder) \<Rightarrow> task list \<Rightarrow> task list" where
  "chartTasks collate rows =
     sort_key (\<lambda>t. map_option collate (label t))
       (sort_key (\<lambda>t. - start_date t) (filter chartFilter rows))"

record chart_row =
  row_id :: int
  row_text :: string
  row_start_date :: string
  row_duration :: int
  row_end_date :: string
  row_url :: string
  row_progress :: "real option"
  row_color :: "string option"

text \<open>\<open>dateFormat\<close> is the library function, with the mask fixed; \<open>None\<close> is a \<open>null\<close> date.\<close>

definition formattedTask :: "(date option \<Rightarrow> string) \<Rightarrow> task \<Rightarrow> chart_row" where
  "formattedTask dateFormat t =
     \<lparr>row_id = task_id t,
      row_text = task_text t,
      row_start_date = dateFormat (Some (start_date t)),
      row_duration = duration t,
      row_end_date = dateFormat (end_date t),
      row_url = url t,
      row_progress = progress t,
      row_color = color t\<rparr>"

definition getTaskChartData ::
  "(string \<Rightarrow> 'k::linorder) \<Rightarrow> (date option \<Rightarrow> string) \<Rightarrow> task list \<Rightarrow> chart_row list" where
  "getTaskChartData collate dateFormat rows =
     map (formattedTask dateFormat) (chartTasks collate rows)"





section \<open>Notions used to state the properties\<close>

text \<open>The issues of the pages a run visits, in order, and whether the last page was reached.\<close>

fun feedItems :: "pages \<Rightarrow> issue list" where
  "feedItems (Final items) = items"
| "feedItems (More items rest) = items @ feedItems rest"
| "feedItems (Broken items) = items"

fun allPagesFetched :: "pages \<Rightarrow> bool" where
  "allPagesFetched (Final items) = True"
| "allPagesFetched (More items rest) = allPagesFetched rest"
| "allPagesFetched (Broken items) = False"

text \<open>The last issue of a list that carries the id \<open>k\<close>.\<close>

fun latest :: "issue list \<Rightarrow> int \<Rightarrow> issue option" where
  "latest [] k = None"
| "latest (i # rest) k =
     (case latest rest k of
        Some i' \<Rightarrow> Some i'
      | None \<Rightarrow> if issue_id i = k then Some i else None)"

text \<open>The ids the pruning step computes from a run state.\<close>

definition deletedIdsOf :: "run \<Rightarrow> int list" where
  "deletedIdsOf r = filter (\<lambda>el. el \<notin> set (idArray r)) (map task_id (realm r))"

text \<open>The table after the upserts of every visited page, before any pruning.\<close>

definition upserted :: "env \<Rightarrow> pages \<Rightarrow> task list \<Rightarrow> task list" where
  "upserted e p rows = fold (\<lambda>i. create (taskOf e i)) (feedItems p) rows"

text \<open>
  The tables the program builds: the Realm file starts empty, and the only writes in
  index.js are the upsert of \<open>processIssues\<close> and the marking of deleted tasks.
\<close>

inductive built :: "task list \<Rightarrow> bool" where
  empty: "built []"
| upsert: "built rows \<Longrightarrow> built (create (taskOf e i) rows)"
| marked: "built rows \<Longrightarrow> markDeleted ks rows = Inr rows' \<Longrightarrow> built rows'"

text \<open>The four properties of the schema that index.js never writes are unset.\<close>

definition unpopulated :: "task \<Rightarrow> bool" where
  "unpopulated t =
     (task_type t = None \<and> parent t = None \<and> level t = None \<and> task_open t = None)"

text \<open>
  The lines joined again with a carriage return and a line feed between them, and
  whether a text contains a carriage return directly followed by a line feed.
\<close>

fun joinLines :: "string list \<Rightarrow> string" where
  "joinLines [] = []"
| "joinLines [l] = l"
| "joinLines (l # m # ls) = l @ CR # LF # joinLines (m # ls)"

fun hasCRLF :: "string \<Rightarrow> bool" where
  "hasCRLF [] = False"
| "hasCRLF [c] = False"
| "hasCRLF (c # d # cs) = ((c = CR \<and> d = LF) \<or> hasCRLF (d # cs))"

text \<open>
  What holds of the variables \<open>label\<close> and \<open>color\<close> throughout the scan of a body: no color
  without a label; a label only from an entry of the issue; and a color with the label
  when the entries that carry the label's name have one.
\<close>

definition labelInv :: "label_entry list option \<Rightarrow> locals \<Rightarrow> bool" where
  "labelInv lbls v =
     ((v_label v = None \<longrightarrow> v_color v = None) \<and>
      (\<forall>n. v_label v = Some n \<longrightarrow>
         (\<exists>ls. lbls = Some ls \<and> n \<in> name ` set ls \<and>
            ((\<forall>a \<in> set ls. name a = n \<longrightarrow> label_color a \<noteq> None) \<longrightarrow> v_color v \<noteq> None))))"

section \<open>Example data\<close>

text \<open>
  On strings of ASCII characters, \<open>trim\<close> removes the characters 9 to 13 and 32 at both
  ends and \<open>toUpperCase\<close> changes the letters \<open>a\<close> to \<open>z\<close>; the examples use no others.
\<close>

definition asciiSpace :: "char \<Rightarrow> bool" where
  "asciiSpace c = (let n = (of_char c :: nat) in (9 \<le> n \<and> n \<le> 13) \<or> n = 32)"

definition asciiTrim :: "string \<Rightarrow> string" where
  "asciiTrim s = rev (dropWhile asciiSpace (rev (dropWhile asciiSpace s)))"

definition asciiUpperChar :: "char \<Rightarrow> char" where
  "asciiUpperChar c =
     (let n = (of_char c :: nat) in if 97 \<le> n \<and> n \<le> 122 then char_of (n - 32) else c)"

definition asciiUpperCase :: "string \<Rightarrow> string" where
  "asciiUpperCase s = map asciiUpperChar s"

definition exampleEnv :: env where
  "exampleEnv =
     \<lparr>START_DATE_STRING = ''Start: '',
      DUE_DATE_STRING = ''Due: '',
      LABEL_STRING = ''Label: '',
      PROGRESS_STRING = ''Progress: '',
      parseDate = (\<lambda>s. if s = ''2017-03-01'' then Some 1488326400000
                       else if s = ''2017-04-01'' then Some 1491004800000 else None),
      sanitizeFloat = (\<lambda>s. if s = ''0.5'' then Some (1 / 2) else None),
      trim = asciiTrim,
      toUpperCase = asciiUpperCase\<rparr>"

definition exampleIssue :: "int \<Rightarrow> string option \<Rightarrow> issue" where
  "exampleIssue k b =
     \<lparr>issue_id = k,
      title = Some ''Write the report'',
      issue_body = b,
      issue_url = None,
      htmlUrl = Some ''https://example.org/issues'',
      issue_number = k,
      issue_state = ''open'',
      createdAt = 1480000000000,
      labels = Some [\<lparr>name = ''bug'', label_color = Some ''d73a4a''\<rparr>,
                     \<lparr>name = ''idea'', label_color = None\<rparr>]\<rparr>"

definition exampleRows :: "task list" where
  "exampleRows = map (\<lambda>k. taskOf exampleEnv (exampleIssue k None)) [1, 2, 3]"

definition examplePages :: pages where
  "examplePages =
     More [exampleIssue 1 (Some ''Due: 2017-03-01'')] (Final [exampleIssue 3 None])"

definition exampleBrokenPages :: pages where
  "exampleBrokenPages =
     More [exampleIssue 1 (Some ''Due: 2017-03-01'')] (Broken [exampleIssue 3 None])"

definition exampleTombstonedRows :: "task list" where
  "exampleTombstonedRows = [(taskOf exampleEnv (exampleIssue 2 None))\<lparr>isDeleted := True\<rparr>]"

definition exampleTask :: "int \<Rightarrow> string option \<Rightarrow> date \<Rightarrow> task" where
  "exampleTask k l s =
     (taskOf exampleEnv (exampleIssue k None))
       \<lparr>label := l, start_date := s, end_date := Some 1491004800000\<rparr>"

definition exampleChartRows :: "task list" where
  "exampleChartRows =
     [exampleTask 1 (Some ''x'') 5,
      (exampleTask 4 (Some ''a'') 7)\<lparr>state := ''closed''\<rparr>,
      exampleTask 2 (Some ''x'') 10,
      exampleTask 3 (Some ''y'') 1,
      (exampleTask 5 None 2)\<lparr>isDeleted := True\<rparr>,
      (exampleTask 6 None 3)\<lparr>end_date := None\<rparr>,
      exampleTask 7 None 4]"

text \<open>An order of strings for the examples: by character code, the first difference decides.\<close>

definition exampleCollate :: "string \<Rightarrow> nat list" where
  "exampleCollate s = map of_char s"

section \<open>Lemmas\<close>

subsection \<open>Strings\<close>

lemma indexOf_range: "indexOf s p = -1 \<or> 0 \<le> indexOf s p"
  by (induction s) (auto simp: Let_def)

lemma indexOf_zero_iff: "indexOf s p = 0 \<longleftrightarrow> prefix p s"
proof (cases s)
  case Nil
  then show ?thesis by simp
next
  case (Cons c cs)
  have "indexOf cs p = -1 \<or> 0 \<le> indexOf cs p" by (rule indexOf_range)
  then show ?thesis using Cons by (auto simp: Let_def)
qed

lemma replace_prefix: "prefix p s \<Longrightarrow> replace s p r = r @ drop (length p) s"
  by (cases s) auto

lemma split_crlf_not_Nil: "split_crlf s \<noteq> []"
  by (induction s rule: split_crlf.induct) (auto split: list.splits)

lemma split_crlf_append: "split_crlf (a @ CR # LF # b) = split_crlf a @ split_crlf b"
proof (induction a rule: split_crlf.induct)
  case 1
  then show ?case by simp
next
  case (2 c)
  then show ?case by (simp add: CR_def LF_def)
next
  case (3 c d cs)
  show ?case
  proof (cases "c = CR \<and> d = LF")
    case True
    then show ?thesis using 3 by simp
  next
    case False
    obtain l ls where l: "split_crlf (d # cs) = l # ls"
      using split_crlf_not_Nil [of "d # cs"] by (cases "split_crlf (d # cs)") auto
    have "split_crlf ((d # cs) @ CR # LF # b) = (l # ls) @ split_crlf b"
      using 3(2) False l by simp
    then show ?thesis using False l by auto
  qed
qed

lemma split_crlf_no_CR: "CR \<notin> set s \<Longrightarrow> split_crlf s = [s]"
  by (induction s rule: split_crlf.induct) auto

lemma joinLines_Cons: "joinLines ((c # l) # ls) = c # joinLines (l # ls)"
  by (cases ls) auto

lemma joinLines_split_crlf: "joinLines (split_crlf s) = s"
proof (induction s rule: split_crlf.induct)
  case 1
  then show ?case by simp
next
  case (2 c)
  then show ?case by simp
next
  case (3 c d cs)
  show ?case
  proof (cases "c = CR \<and> d = LF")
    case True
    obtain l ls where "split_crlf cs = l # ls"
      using split_crlf_not_Nil [of cs] by (cases "split_crlf cs") auto
    then show ?thesis using True 3(1) by simp
  next
    case False
    obtain l ls where l: "split_crlf (d # cs) = l # ls"
      using split_crlf_not_Nil [of "d # cs"] by (cases "split_crlf (d # cs)") auto
    have "joinLines (l # ls) = d # cs" using 3(2) False l by simp
    then show ?thesis using False l by (auto simp: joinLines_Cons)
  qed
qed

lemma split_crlf_first: "split_crlf (d # cs) = l # ls \<Longrightarrow> l = [] \<or> hd l = d"
  by (cases cs) (auto split: if_splits list.splits)

lemma hasCRLF_Cons: "hasCRLF (c # l) = ((l \<noteq> [] \<and> c = CR \<and> hd l = LF) \<or> hasCRLF l)"
  by (cases l) auto

lemma split_crlf_lines: "l \<in> set (split_crlf s) \<Longrightarrow> \<not> hasCRLF l"
proof (induction s arbitrary: l rule: split_crlf.induct)
  case 1
  then show ?case by simp
next
  case (2 c)
  then show ?case by simp
next
  case (3 c d cs)
  show ?case
  proof (cases "c = CR \<and> d = LF")
    case True
    then show ?thesis using 3(1) [of l] 3(3) by auto
  next
    case False
    obtain m ms where m: "split_crlf (d # cs) = m # ms"
      using split_crlf_not_Nil [of "d # cs"] by (cases "split_crlf (d # cs)") auto
    have first: "m = [] \<or> hd m = d" using m by (rule split_crlf_first)
    have nm: "\<not> hasCRLF m" using 3(2) [of m] False m by simp
    have "\<not> hasCRLF (c # m)" using first nm False by (auto simp: hasCRLF_Cons)
    moreover have "\<And>x. x \<in> set ms \<Longrightarrow> \<not> hasCRLF x" using 3(2) False m by simp
    ultimately show ?thesis using 3(3) False m by auto
  qed
qed

lemma split_crlf_one_line: "\<not> hasCRLF s \<Longrightarrow> split_crlf s = [s]"
  by (induction s rule: split_crlf.induct) auto

subsection \<open>Scanning a line\<close>

lemma labelsLoop_dates:
  "dueDate (labelsLoop e ls s v) = dueDate v \<and> startDate (labelsLoop e ls s v) = startDate v \<and>
   v_progress (labelsLoop e ls s v) = v_progress v"
  by (induction ls arbitrary: v) (auto simp: Let_def split: option.splits)

lemma dueDate_scanLine:
  "dueDate (scanLine e lbls line v) =
     (if prefix (DUE_DATE_STRING e) line then
        (case parseDate e (drop (length (DUE_DATE_STRING e)) line) of
           Some d \<Rightarrow> Some d
         | None \<Rightarrow> dueDate v)
      else dueDate v)"
  by (simp add: scanLine_def Let_def indexOf_zero_iff replace_prefix labelsLoop_dates
      split: option.splits)

lemma scanLine_no_keyword:
  "\<not> prefix (START_DATE_STRING e) line \<Longrightarrow> \<not> prefix (DUE_DATE_STRING e) line \<Longrightarrow>
   \<not> prefix (LABEL_STRING e) line \<Longrightarrow> \<not> prefix (PROGRESS_STRING e) line \<Longrightarrow>
   scanLine e lbls line v = v"
  by (simp add: scanLine_def Let_def indexOf_zero_iff)

lemma dueDate_fold_none:
  "\<forall>l \<in> set ls. \<not> prefix (DUE_DATE_STRING e) l \<or>
       parseDate e (drop (length (DUE_DATE_STRING e)) l) = None \<Longrightarrow>
   dueDate (fold (scanLine e lbls) ls v) = dueDate v"
  by (induction ls arbitrary: v) (auto simp: dueDate_scanLine)

lemma dueDate_fold_last:
  assumes "prefix (DUE_DATE_STRING e) l"
    and "parseDate e (drop (length (DUE_DATE_STRING e)) l) = Some d"
    and "\<forall>l \<in> set after. \<not> prefix (DUE_DATE_STRING e) l \<or>
           parseDate e (drop (length (DUE_DATE_STRING e)) l) = None"
  shows "dueDate (fold (scanLine e lbls) (before @ l # after) v) = Some d"
  using assms by (simp add: dueDate_fold_none dueDate_scanLine)

lemma taskOf_fields:
  "end_date (taskOf e i) = dueDate (findKeywords e i)"
  "start_date (taskOf e i) = startDate (findKeywords e i)"
  "label (taskOf e i) = v_label (findKeywords e i)"
  "color (taskOf e i) = v_color (findKeywords e i)"
  "progress (taskOf e i) = v_progress (findKeywords e i)"
  by (simp_all add: taskOf_def Let_def)

lemma end_date_taskOf:
  "issue_body i = Some b \<Longrightarrow>
   end_date (taskOf e i) = dueDate (fold (scanLine e (labels i)) (split_crlf b) (initialLocals i))"
  by (simp add: taskOf_fields findKeywords_def)

lemma dueDate_initialLocals [simp]: "dueDate (initialLocals i) = None"
  by (simp add: initialLocals_def)

lemma end_date_last_line:
  assumes "issue_body i = Some b" and "split_crlf b = before @ l # after"
    and "prefix (DUE_DATE_STRING e) l"
    and "parseDate e (drop (length (DUE_DATE_STRING e)) l) = Some d"
    and "\<forall>l' \<in> set after. \<not> prefix (DUE_DATE_STRING e) l' \<or>
           parseDate e (drop (length (DUE_DATE_STRING e)) l') = None"
  shows "end_date (taskOf e i) = Some d"
  using assms(3-5) by (simp only: end_date_taskOf [OF assms(1)] assms(2) dueDate_fold_last)

lemma end_date_no_line:
  assumes "issue_body i = Some b"
    and "\<forall>l \<in> set (split_crlf b). \<not> prefix (DUE_DATE_STRING e) l"
  shows "end_date (taskOf e i) = None"
proof -
  have "dueDate (fold (scanLine e (labels i)) (split_crlf b) (initialLocals i)) =
        dueDate (initialLocals i)"
    by (rule dueDate_fold_none) (use assms(2) in blast)
  then show ?thesis by (simp add: end_date_taskOf [OF assms(1)])
qed

lemma startDate_scanLine:
  "startDate (scanLine e lbls line v) =
     (if prefix (START_DATE_STRING e) line then
        (case parseDate e (drop (length (START_DATE_STRING e)) line) of
           Some d \<Rightarrow> d
         | None \<Rightarrow> startDate v)
      else startDate v)"
  by (simp add: scanLine_def Let_def indexOf_zero_iff replace_prefix labelsLoop_dates
      split: option.splits)

lemma v_progress_scanLine:
  "v_progress (scanLine e lbls line v) =
     (if prefix (PROGRESS_STRING e) line
      then sanitizeFloat e (drop (length (PROGRESS_STRING e)) line)
      else v_progress v)"
  by (simp add: scanLine_def Let_def indexOf_zero_iff replace_prefix labelsLoop_dates
      split: option.splits)

lemma startDate_fold_same:
  "\<forall>l \<in> set ls. \<not> prefix (START_DATE_STRING e) l \<or>
       parseDate e (drop (length (START_DATE_STRING e)) l) = None \<Longrightarrow>
   startDate (fold (scanLine e lbls) ls v) = startDate v"
  by (induction ls arbitrary: v) (auto simp: startDate_scanLine)

lemma v_progress_fold_same:
  "\<forall>l \<in> set ls. \<not> prefix (PROGRESS_STRING e) l \<Longrightarrow>
   v_progress (fold (scanLine e lbls) ls v) = v_progress v"
  by (induction ls arbitrary: v) (auto simp: v_progress_scanLine)

lemma fold_no_keyword:
  "\<forall>l \<in> set ls. \<not> prefix (START_DATE_STRING e) l \<and> \<not> prefix (DUE_DATE_STRING e) l \<and>
     \<not> prefix (LABEL_STRING e) l \<and> \<not> prefix (PROGRESS_STRING e) l \<Longrightarrow>
   fold (scanLine e lbls) ls v = v"
  by (induction ls arbitrary: v) (auto simp: scanLine_no_keyword)

lemma start_date_taskOf:
  "issue_body i = Some b \<Longrightarrow>
   start_date (taskOf e i) = startDate (fold (scanLine e (labels i)) (split_crlf b) (initialLocals i))"
  by (simp add: taskOf_fields findKeywords_def)

lemma progress_taskOf:
  "issue_body i = Some b \<Longrightarrow>
   progress (taskOf e i) = v_progress (fold (scanLine e (labels i)) (split_crlf b) (initialLocals i))"
  by (simp add: taskOf_fields findKeywords_def)

lemma label_taskOf:
  "issue_body i = Some b \<Longrightarrow>
   label (taskOf e i) = v_label (fold (scanLine e (labels i)) (split_crlf b) (initialLocals i))"
  by (simp add: taskOf_fields findKeywords_def)

subsection \<open>Label and color\<close>

lemma labelInv_fields:
  "labelInv lbls (v\<lparr>startDate := d\<rparr>) = labelInv lbls v"
  "labelInv lbls (v\<lparr>dueDate := dd\<rparr>) = labelInv lbls v"
  "labelInv lbls (v\<lparr>v_progress := pr\<rparr>) = labelInv lbls v"
  by (simp_all add: labelInv_def)

lemma labelInv_labelsLoop:
  "set as \<subseteq> set ls \<Longrightarrow> labelInv (Some ls) v \<Longrightarrow> labelInv (Some ls) (labelsLoop e as s v)"
proof (induction as arbitrary: v)
  case Nil
  then show ?case by simp
next
  case (Cons a as)
  let ?v1 = "(if name a = s then
          (let v' = v\<lparr>v_label := Some (name a)\<rparr> in
           case label_color a of
             Some c \<Rightarrow> v'\<lparr>v_color := Some (CHR ''#'' # toUpperCase e c)\<rparr>
           | None \<Rightarrow> v')
        else v)"
  have a: "a \<in> set ls" using Cons.prems(1) by simp
  have "labelInv (Some ls) ?v1"
  proof (cases "name a = s")
    case False
    then show ?thesis using Cons.prems(2) by simp
  next
    case True
    show ?thesis
    proof (cases "label_color a")
      case None
      then show ?thesis using True a by (auto simp: labelInv_def Let_def)
    next
      case (Some c)
      then show ?thesis using True a by (auto simp: labelInv_def Let_def)
    qed
  qed
  moreover have "set as \<subseteq> set ls" using Cons.prems(1) by simp
  ultimately have "labelInv (Some ls) (labelsLoop e as s ?v1)" by (rule Cons.IH [rotated])
  then show ?case by simp
qed

lemma labelInv_scanLine: "labelInv lbls v \<Longrightarrow> labelInv lbls (scanLine e lbls line v)"
  by (cases lbls)
     (auto simp: scanLine_def Let_def labelInv_fields labelInv_labelsLoop split: option.splits)

lemma labelInv_fold: "labelInv lbls v \<Longrightarrow> labelInv lbls (fold (scanLine e lbls) lines v)"
  by (induction lines arbitrary: v) (auto simp: labelInv_scanLine)

lemma labelInv_findKeywords: "labelInv (labels i) (findKeywords e i)"
proof -
  have "labelInv (labels i) (initialLocals i)" by (simp add: labelInv_def initialLocals_def)
  then show ?thesis by (cases "issue_body i") (simp_all add: findKeywords_def labelInv_fold)
qed

lemma v_label_labelsLoop:
  "v_label (labelsLoop e as s v) = (if s \<in> name ` set as then Some s else v_label v)"
  by (induction as arbitrary: v) (auto simp: Let_def split: option.splits)

lemma v_color_labelsLoop_same:
  "\<forall>a \<in> set as. name a = s \<longrightarrow> label_color a = None \<Longrightarrow>
   v_color (labelsLoop e as s v) = v_color v"
  by (induction as arbitrary: v) (auto simp: Let_def split: option.splits)

lemma v_label_scanLine:
  "v_label (scanLine e lbls line v) =
     (if prefix (LABEL_STRING e) line then
        (case lbls of
           Some ls \<Rightarrow>
             if trim e (drop (length (LABEL_STRING e)) line) \<in> name ` set ls
             then Some (trim e (drop (length (LABEL_STRING e)) line))
             else v_label v
         | None \<Rightarrow> v_label v)
      else v_label v)"
  by (simp add: scanLine_def Let_def indexOf_zero_iff replace_prefix v_label_labelsLoop
      split: option.splits)

lemma v_color_scanLine_same:
  assumes "\<forall>ls. lbls = Some ls \<longrightarrow>
     (\<forall>a \<in> set ls. prefix (LABEL_STRING e) line \<and>
        name a = trim e (drop (length (LABEL_STRING e)) line) \<longrightarrow> label_color a = None)"
  shows "v_color (scanLine e lbls line v) = v_color v"
proof (cases "prefix (LABEL_STRING e) line")
  case False
  then show ?thesis
    by (simp add: scanLine_def Let_def indexOf_zero_iff split: option.splits)
next
  case True
  show ?thesis
  proof (cases lbls)
    case None
    then show ?thesis
      by (simp add: scanLine_def Let_def split: option.splits)
  next
    case (Some ls)
    have "\<forall>a \<in> set ls. name a = trim e (drop (length (LABEL_STRING e)) line) \<longrightarrow>
        label_color a = None"
      using assms Some True by simp
    then show ?thesis using Some True
      by (simp add: scanLine_def Let_def indexOf_zero_iff replace_prefix v_color_labelsLoop_same
          split: option.splits)
  qed
qed

lemma v_label_fold_same:
  "\<forall>l \<in> set lines. \<not> prefix (LABEL_STRING e) l \<or>
      trim e (drop (length (LABEL_STRING e)) l) \<notin> name ` set ls \<Longrightarrow>
   v_label (fold (scanLine e (Some ls)) lines v) = v_label v"
  by (induction lines arbitrary: v) (auto simp: v_label_scanLine)

lemma v_color_fold_same:
  "\<forall>l \<in> set lines. \<forall>ls. lbls = Some ls \<longrightarrow>
     (\<forall>a \<in> set ls. prefix (LABEL_STRING e) l \<and>
        name a = trim e (drop (length (LABEL_STRING e)) l) \<longrightarrow> label_color a = None) \<Longrightarrow>
   v_color (fold (scanLine e lbls) lines v) = v_color v"
proof (induction lines arbitrary: v)
  case Nil
  then show ?case by simp
next
  case (Cons l lines)
  have "v_color (scanLine e lbls l v) = v_color v"
    by (rule v_color_scanLine_same) (use Cons.prems in simp)
  moreover have "v_color (fold (scanLine e lbls) lines (scanLine e lbls l v)) =
      v_color (scanLine e lbls l v)"
    by (rule Cons.IH) (use Cons.prems in simp)
  ultimately show ?case by simp
qed

subsection \<open>Rows and primary keys\<close>

lemma objectForPrimaryKey_None: "objectForPrimaryKey rows k = None \<longleftrightarrow> k \<notin> set (map task_id rows)"
  by (induction rows) (auto simp: objectForPrimaryKey_def)

lemma objectForPrimaryKey_Some_id: "objectForPrimaryKey rows k = Some t \<Longrightarrow> task_id t = k \<and> t \<in> set rows"
  by (induction rows) (auto simp: objectForPrimaryKey_def split: if_splits)

lemma objectForPrimaryKey_distinct:
  "distinct (map task_id rows) \<Longrightarrow> t \<in> set rows \<Longrightarrow> objectForPrimaryKey rows (task_id t) = Some t"
  by (induction rows) (auto simp: objectForPrimaryKey_def)

lemma rows_eqI:
  "distinct (map task_id xs) \<Longrightarrow> map task_id xs = map task_id ys \<Longrightarrow>
   (\<And>k. objectForPrimaryKey xs k = objectForPrimaryKey ys k) \<Longrightarrow> xs = ys"
proof (induction xs arbitrary: ys)
  case Nil
  then show ?case by simp
next
  case (Cons x xs)
  then obtain y ys' where ys: "ys = y # ys'" by (cases ys) auto
  have idxy: "task_id x = task_id y" using Cons.prems(2) ys by simp
  have "objectForPrimaryKey (x # xs) (task_id x) = objectForPrimaryKey ys (task_id x)"
    by (rule Cons.prems(3))
  then have xy: "x = y" using ys idxy by (simp add: objectForPrimaryKey_def)
  have "xs = ys'"
  proof (rule Cons.IH)
    show "distinct (map task_id xs)" using Cons.prems(1) by simp
    show "map task_id xs = map task_id ys'" using Cons.prems(2) ys by simp
    fix k
    show "objectForPrimaryKey xs k = objectForPrimaryKey ys' k"
    proof (cases "k = task_id x")
      case True
      then have "k \<notin> set (map task_id xs)" using Cons.prems(1) by simp
      moreover have "map task_id ys' = map task_id xs" using Cons.prems(2) ys by simp
      then have "k \<notin> set (map task_id ys') \<longleftrightarrow> k \<notin> set (map task_id xs)" by simp
      ultimately show ?thesis using objectForPrimaryKey_None [of xs k] objectForPrimaryKey_None [of ys' k] by simp
    next
      case False
      then show ?thesis using Cons.prems(3) [of k] ys xy by (simp add: objectForPrimaryKey_def)
    qed
  qed
  then show ?case using ys xy by simp
qed

lemma ids_modify:
  "(\<And>t. task_id t = k \<Longrightarrow> task_id (f t) = k) \<Longrightarrow> map task_id (modify f k rows) = map task_id rows"
  by (induction rows) auto

lemma lookup_modify:
  "(\<And>t. task_id t = k \<Longrightarrow> task_id (f t) = k) \<Longrightarrow>
   objectForPrimaryKey (modify f k rows) j =
     (if j = k then map_option f (objectForPrimaryKey rows k) else objectForPrimaryKey rows j)"
  by (induction rows) (auto simp: objectForPrimaryKey_def)

lemma set_modify: "set (modify f k rows) \<subseteq> set rows \<union> f ` {t \<in> set rows. task_id t = k}"
  by (induction rows) auto

lemma task_id_assign [simp]: "task_id (assign p t) = task_id p"
  by (simp add: assign_def)

lemma isDeleted_assign [simp]: "isDeleted (assign p t) = isDeleted p"
  by (simp add: assign_def)

lemma assign_assign [simp]: "assign p (assign q t) = assign p t"
  by (simp add: assign_def)

lemma assign_eq:
  "assign p t = p\<lparr>task_type := task_type t, parent := parent t, level := level t,
                  task_open := task_open t\<rparr>"
  by (simp add: assign_def)

lemma ids_create:
  "map task_id (create p rows) =
     (if task_id p \<in> set (map task_id rows) then map task_id rows
      else map task_id rows @ [task_id p])"
proof (cases "objectForPrimaryKey rows (task_id p)")
  case None
  then show ?thesis using objectForPrimaryKey_None [of rows "task_id p"] by (simp add: create_def)
next
  case (Some t)
  then have "task_id p \<in> set (map task_id rows)"
    using objectForPrimaryKey_None [of rows "task_id p"] by auto
  then show ?thesis using Some by (simp add: create_def ids_modify)
qed

lemma find_append_rows:
  "find P (xs @ ys) = (case find P xs of None \<Rightarrow> find P ys | Some x \<Rightarrow> Some x)"
  by (induction xs) auto

lemma lookup_create:
  "objectForPrimaryKey (create p rows) j =
     (if j = task_id p then
        Some (case objectForPrimaryKey rows j of None \<Rightarrow> p | Some t \<Rightarrow> assign p t)
      else objectForPrimaryKey rows j)"
proof (cases "objectForPrimaryKey rows (task_id p)")
  case None
  then have "task_id p \<notin> set (map task_id rows)" by (simp add: objectForPrimaryKey_None)
  then show ?thesis using None
    by (auto simp: create_def objectForPrimaryKey_def find_append_rows split: option.splits)
next
  case (Some t)
  then show ?thesis by (simp add: create_def lookup_modify)
qed

lemma distinct_create: "distinct (map task_id rows) \<Longrightarrow> distinct (map task_id (create p rows))"
  by (simp add: ids_create)

lemma set_create: "set (create p rows) \<subseteq> set rows \<union> {p} \<union> assign p ` set rows"
proof (cases "objectForPrimaryKey rows (task_id p)")
  case None
  then show ?thesis by (auto simp: create_def)
next
  case (Some t)
  then show ?thesis using set_modify [of "assign p" "task_id p" rows] by (auto simp: create_def)
qed


subsection \<open>markDeleted\<close>

lemma lookup_map_rows:
  "(\<And>t. task_id (g t) = task_id t) \<Longrightarrow>
   objectForPrimaryKey (map g rows) j = map_option g (objectForPrimaryKey rows j)"
  by (induction rows) (auto simp: objectForPrimaryKey_def)

lemma markDeleted_present:
  "set ks \<subseteq> set (map task_id rows) \<Longrightarrow>
   \<exists>rows'. markDeleted ks rows = Inr rows' \<and> map task_id rows' = map task_id rows \<and>
     (\<forall>j. objectForPrimaryKey rows' j =
        (if j \<in> set ks then map_option (\<lambda>t. t\<lparr>isDeleted := True\<rparr>) (objectForPrimaryKey rows j)
         else objectForPrimaryKey rows j))"
proof (induction ks arbitrary: rows)
  case Nil
  then show ?case by simp
next
  case (Cons k ks)
  let ?del = "\<lambda>t. t\<lparr>isDeleted := True\<rparr>"
  let ?rows1 = "modify ?del k rows"
  have ids1: "map task_id ?rows1 = map task_id rows" by (simp add: ids_modify)
  have look1: "\<And>j. objectForPrimaryKey ?rows1 j =
      (if j = k then map_option ?del (objectForPrimaryKey rows k) else objectForPrimaryKey rows j)"
    by (simp add: lookup_modify)
  from Cons.prems have "k \<in> set (map task_id rows)" by simp
  then obtain t where t: "objectForPrimaryKey rows k = Some t"
    using objectForPrimaryKey_None [of rows k] by (cases "objectForPrimaryKey rows k") auto
  have "set ks \<subseteq> set (map task_id ?rows1)" using Cons.prems ids1 by simp
  from Cons.IH [OF this] obtain rows' where r: "markDeleted ks ?rows1 = Inr rows'"
    "map task_id rows' = map task_id ?rows1"
    "\<And>j. objectForPrimaryKey rows' j =
        (if j \<in> set ks then map_option ?del (objectForPrimaryKey ?rows1 j)
         else objectForPrimaryKey ?rows1 j)"
    by blast
  have "markDeleted (k # ks) rows = Inr rows'" using t r(1) by simp
  moreover have "map task_id rows' = map task_id rows" using r(2) ids1 by simp
  moreover have "\<And>j. objectForPrimaryKey rows' j =
        (if j \<in> set (k # ks) then map_option ?del (objectForPrimaryKey rows j)
         else objectForPrimaryKey rows j)"
    by (simp add: r(3) look1 option.map_comp comp_def)
  ultimately show ?case by blast
qed

lemma markDeleted_absent:
  "\<not> set ks \<subseteq> set (map task_id rows) \<Longrightarrow> markDeleted ks rows = Inl TypeError"
proof (induction ks arbitrary: rows)
  case Nil
  then show ?case by simp
next
  case (Cons k ks)
  show ?case
  proof (cases "objectForPrimaryKey rows k")
    case None
    then show ?thesis by simp
  next
    case (Some t)
    then have "k \<in> set (map task_id rows)" using objectForPrimaryKey_None [of rows k] by auto
    then have "\<not> set ks \<subseteq> set (map task_id (modify (\<lambda>t. t\<lparr>isDeleted := True\<rparr>) k rows))"
      using Cons.prems by (simp add: ids_modify)
    then show ?thesis using Some Cons.IH by simp
  qed
qed



subsection \<open>Upserts and pruning\<close>

lemma task_id_taskOf [simp]: "task_id (taskOf e i) = issue_id i"
  by (simp add: taskOf_def Let_def)

lemma isDeleted_taskOf [simp]: "isDeleted (taskOf e i) = False"
  by (simp add: taskOf_def Let_def)

lemma assign_taskOf_taskOf [simp]: "assign (taskOf e i) (taskOf e j) = taskOf e i"
  by (simp add: assign_def taskOf_def Let_def)

lemma itemsLoop_append: "itemsLoop e (xs @ ys) r = itemsLoop e ys (itemsLoop e xs r)"
  by (induction xs arbitrary: r) auto

lemma idArray_itemsLoop: "idArray (itemsLoop e items r) = idArray r @ map issue_id items"
  by (induction items arbitrary: r) auto

lemma log_itemsLoop: "log (itemsLoop e items r) = log r @ map (\<lambda>i. Upsert (issue_id i)) items"
  by (induction items arbitrary: r) auto

lemma realm_itemsLoop: "realm (itemsLoop e items r) = fold (\<lambda>i. create (taskOf e i)) items (realm r)"
  by (induction items arbitrary: r) auto

lemma latest_None: "latest items k = None \<longleftrightarrow> k \<notin> set (map issue_id items)"
  by (induction items) (auto split: option.splits)

lemma idset_create: "set (map task_id (create p rows)) = insert (task_id p) (set (map task_id rows))"
  by (simp add: ids_create) blast

lemma idset_fold_create:
  "set (map task_id (fold (\<lambda>i. create (taskOf e i)) items rows)) =
     set (map task_id rows) \<union> set (map issue_id items)"
proof (induction items arbitrary: rows)
  case Nil
  then show ?case by simp
next
  case (Cons i items)
  have "set (map task_id (fold (\<lambda>i. create (taskOf e i)) items (create (taskOf e i) rows))) =
        set (map task_id (create (taskOf e i) rows)) \<union> set (map issue_id items)"
    by (rule Cons.IH)
  then show ?case by (simp add: idset_create del: set_map)
qed

lemma ids_fold_create_known:
  "set (map issue_id items) \<subseteq> set (map task_id rows) \<Longrightarrow>
   map task_id (fold (\<lambda>i. create (taskOf e i)) items rows) = map task_id rows"
proof (induction items arbitrary: rows)
  case Nil
  then show ?case by simp
next
  case (Cons i items)
  have 1: "map task_id (create (taskOf e i) rows) = map task_id rows"
    using Cons.prems by (simp add: ids_create)
  then have "set (map issue_id items) \<subseteq> set (map task_id (create (taskOf e i) rows))"
    using Cons.prems by simp
  from Cons.IH [OF this] show ?case using 1 by simp
qed

lemma distinct_fold_create:
  "distinct (map task_id rows) \<Longrightarrow>
   distinct (map task_id (fold (\<lambda>i. create (taskOf e i)) items rows))"
proof (induction items arbitrary: rows)
  case Nil
  then show ?case by simp
next
  case (Cons i items)
  from Cons.IH [OF distinct_create [OF Cons.prems]] show ?case by simp
qed

lemma lookup_fold_create:
  "objectForPrimaryKey (fold (\<lambda>i. create (taskOf e i)) items rows) k =
     (case latest items k of
        None \<Rightarrow> objectForPrimaryKey rows k
      | Some i \<Rightarrow> Some (case objectForPrimaryKey rows k of
                          None \<Rightarrow> taskOf e i
                        | Some t \<Rightarrow> assign (taskOf e i) t))"
proof (induction items arbitrary: rows)
  case Nil
  then show ?case by simp
next
  case (Cons i items)
  show ?case
    by (simp add: Cons.IH lookup_create split: option.splits)
qed

lemma processIssues_eq:
  "processIssues e p r =
     (if allPagesFetched p then prune (itemsLoop e (feedItems p) r)
      else (Fetch_rejected, itemsLoop e (feedItems p) r))"
  by (induction p arbitrary: r) (auto simp: itemsLoop_append)

lemma prune_completed:
  "\<exists>rows'. prune r = (Completed, r\<lparr>realm := rows', log := log r @ [Tombstone (deletedIdsOf r), Completion]\<rparr>)
     \<and> markDeleted (deletedIdsOf r) (realm r) = Inr rows'
     \<and> map task_id rows' = map task_id (realm r)
     \<and> (\<forall>j. objectForPrimaryKey rows' j =
          (if j \<in> set (idArray r) then objectForPrimaryKey (realm r) j
           else map_option (\<lambda>t. t\<lparr>isDeleted := True\<rparr>) (objectForPrimaryKey (realm r) j)))"
proof -
  have sub: "set (deletedIdsOf r) \<subseteq> set (map task_id (realm r))" by (auto simp: deletedIdsOf_def)
  from markDeleted_present [OF sub] obtain rows' where r: "markDeleted (deletedIdsOf r) (realm r) = Inr rows'"
    "map task_id rows' = map task_id (realm r)"
    "\<And>j. objectForPrimaryKey rows' j =
        (if j \<in> set (deletedIdsOf r) then map_option (\<lambda>t. t\<lparr>isDeleted := True\<rparr>) (objectForPrimaryKey (realm r) j)
         else objectForPrimaryKey (realm r) j)"
    by blast
  have "prune r = (Completed, r\<lparr>realm := rows', log := log r @ [Tombstone (deletedIdsOf r), Completion]\<rparr>)"
    using r(1) by (simp add: prune_def deletedIdsOf_def Let_def)
  moreover have "\<And>j. objectForPrimaryKey rows' j =
          (if j \<in> set (idArray r) then objectForPrimaryKey (realm r) j
           else map_option (\<lambda>t. t\<lparr>isDeleted := True\<rparr>) (objectForPrimaryKey (realm r) j))"
  proof -
    fix j
    show "objectForPrimaryKey rows' j =
          (if j \<in> set (idArray r) then objectForPrimaryKey (realm r) j
           else map_option (\<lambda>t. t\<lparr>isDeleted := True\<rparr>) (objectForPrimaryKey (realm r) j))"
    proof (cases "j \<in> set (map task_id (realm r))")
      case True
      then show ?thesis using r(3) [of j] by (auto simp: deletedIdsOf_def)
    next
      case False
      then have "objectForPrimaryKey (realm r) j = None" by (simp add: objectForPrimaryKey_None)
      then show ?thesis using r(3) [of j] by simp
    qed
  qed
  ultimately show ?thesis using r(1,2) by blast
qed

subsection \<open>A whole run\<close>

lemma refreshData_eq:
  "refreshData e p rows =
     (let r = \<lparr>realm = upserted e p rows, idArray = map issue_id (feedItems p),
               log = map (\<lambda>i. Upsert (issue_id i)) (feedItems p)\<rparr>
      in if allPagesFetched p then prune r else (Fetch_rejected, r))"
proof -
  let ?r0 = "\<lparr>realm = rows, idArray = [], log = []\<rparr>"
  have "itemsLoop e (feedItems p) ?r0 =
          \<lparr>realm = upserted e p rows, idArray = map issue_id (feedItems p),
           log = map (\<lambda>i. Upsert (issue_id i)) (feedItems p)\<rparr>"
    using realm_itemsLoop [of e "feedItems p" ?r0] idArray_itemsLoop [of e "feedItems p" ?r0]
      log_itemsLoop [of e "feedItems p" ?r0]
    by (cases "itemsLoop e (feedItems p) ?r0") (simp add: upserted_def)
  then show ?thesis by (simp add: refreshData_def processIssues_eq Let_def)
qed

lemma sync_not_fetched: "\<not> allPagesFetched p \<Longrightarrow> sync e p rows = upserted e p rows"
  by (simp add: sync_def refreshData_eq Let_def)

lemma sync_fetched:
  assumes "allPagesFetched p"
  shows "fst (refreshData e p rows) = Completed"
    and "map task_id (sync e p rows) = map task_id (upserted e p rows)"
    and "objectForPrimaryKey (sync e p rows) k =
           (if k \<in> set (map issue_id (feedItems p)) then objectForPrimaryKey (upserted e p rows) k
            else map_option (\<lambda>t. t\<lparr>isDeleted := True\<rparr>) (objectForPrimaryKey (upserted e p rows) k))"
proof -
  let ?r = "\<lparr>realm = upserted e p rows, idArray = map issue_id (feedItems p),
               log = map (\<lambda>i. Upsert (issue_id i)) (feedItems p)\<rparr>"
  have eq: "refreshData e p rows = prune ?r" using assms by (simp add: refreshData_eq Let_def)
  from prune_completed [of ?r] obtain rows' where
    r: "prune ?r = (Completed, ?r\<lparr>realm := rows', log := log ?r @ [Tombstone (deletedIdsOf ?r), Completion]\<rparr>)"
    "map task_id rows' = map task_id (realm ?r)"
    "\<And>j. objectForPrimaryKey rows' j =
          (if j \<in> set (idArray ?r) then objectForPrimaryKey (realm ?r) j
           else map_option (\<lambda>t. t\<lparr>isDeleted := True\<rparr>) (objectForPrimaryKey (realm ?r) j))"
    by blast
  show "fst (refreshData e p rows) = Completed" using eq r(1) by simp
  have s: "sync e p rows = rows'" using eq r(1) by (simp add: sync_def)
  show "map task_id (sync e p rows) = map task_id (upserted e p rows)" using s r(2) by simp
  show "objectForPrimaryKey (sync e p rows) k =
           (if k \<in> set (map issue_id (feedItems p)) then objectForPrimaryKey (upserted e p rows) k
            else map_option (\<lambda>t. t\<lparr>isDeleted := True\<rparr>) (objectForPrimaryKey (upserted e p rows) k))"
    using s r(3) [of k] by simp
qed

lemma ids_sync: "map task_id (sync e p rows) = map task_id (upserted e p rows)"
  by (cases "allPagesFetched p") (simp_all add: sync_fetched(2) sync_not_fetched)

lemma distinct_sync: "distinct (map task_id rows) \<Longrightarrow> distinct (map task_id (sync e p rows))"
  by (simp add: ids_sync upserted_def distinct_fold_create)

lemma lookup_upserted:
  "objectForPrimaryKey (upserted e p rows) k =
     (case latest (feedItems p) k of
        None \<Rightarrow> objectForPrimaryKey rows k
      | Some i \<Rightarrow> Some (case objectForPrimaryKey rows k of
                          None \<Rightarrow> taskOf e i
                        | Some t \<Rightarrow> assign (taskOf e i) t))"
  by (simp add: upserted_def lookup_fold_create)

lemma lookup_sync:
  "objectForPrimaryKey (sync e p rows) k =
     (case latest (feedItems p) k of
        None \<Rightarrow> (if allPagesFetched p
                  then map_option (\<lambda>t. t\<lparr>isDeleted := True\<rparr>) (objectForPrimaryKey rows k)
                  else objectForPrimaryKey rows k)
      | Some i \<Rightarrow> Some (case objectForPrimaryKey rows k of
                          None \<Rightarrow> taskOf e i
                        | Some t \<Rightarrow> assign (taskOf e i) t))"
proof (cases "allPagesFetched p")
  case True
  show ?thesis
    using latest_None [of "feedItems p" k]
    by (cases "latest (feedItems p) k") (simp_all add: sync_fetched(3) [OF True] lookup_upserted True)
next
  case False
  then show ?thesis by (simp add: sync_not_fetched lookup_upserted split: option.splits)
qed

lemma idset_upserted:
  "set (map task_id (upserted e p rows)) = set (map task_id rows) \<union> set (map issue_id (feedItems p))"
  by (simp add: upserted_def idset_fold_create del: set_map)

lemma sync_sync:
  assumes "distinct (map task_id rows)"
  shows "sync e p (sync e p rows) = sync e p rows"
proof (rule rows_eqI)
  let ?s = "sync e p rows"
  show "distinct (map task_id (sync e p ?s))" using assms by (simp add: distinct_sync)
  have "set (map issue_id (feedItems p)) \<subseteq> set (map task_id ?s)"
    by (simp add: ids_sync idset_upserted del: set_map)
  then have "map task_id (upserted e p ?s) = map task_id ?s"
    unfolding upserted_def by (rule ids_fold_create_known)
  then show "map task_id (sync e p ?s) = map task_id ?s" by (simp add: ids_sync)
  fix k
  show "objectForPrimaryKey (sync e p ?s) k = objectForPrimaryKey ?s k"
    by (simp add: lookup_sync option.map_comp comp_def split: option.splits)
qed

lemma fst_refreshData:
  "fst (refreshData e p rows) = (if allPagesFetched p then Completed else Fetch_rejected)"
proof (cases "allPagesFetched p")
  case True
  then show ?thesis by (simp add: sync_fetched(1))
next
  case False
  then show ?thesis by (simp add: refreshData_eq Let_def)
qed

lemma deleted_after_create:
  "t \<in> set (create (taskOf e i) rows) \<Longrightarrow> isDeleted t \<Longrightarrow> t \<in> set rows"
  using set_create [of "taskOf e i" rows] by auto

lemma deleted_after_upserts:
  "t \<in> set (fold (\<lambda>i. create (taskOf e i)) items rows) \<Longrightarrow> isDeleted t \<Longrightarrow> t \<in> set rows"
proof (induction items arbitrary: rows)
  case Nil
  then show ?case by simp
next
  case (Cons i items)
  from Cons.prems have "t \<in> set (fold (\<lambda>i. create (taskOf e i)) items (create (taskOf e i) rows))"
    by simp
  from Cons.IH [OF this Cons.prems(2)] have "t \<in> set (create (taskOf e i) rows)" .
  then show ?case using Cons.prems(2) by (rule deleted_after_create)
qed

subsection \<open>The tables the program builds\<close>

lemma markDeleted_Inr:
  "markDeleted ks rows = Inr rows' \<Longrightarrow>
   map task_id rows' = map task_id rows \<and>
   set rows' \<subseteq> set rows \<union> (\<lambda>t. t\<lparr>isDeleted := True\<rparr>) ` set rows"
proof (induction ks arbitrary: rows)
  case Nil
  then show ?case by auto
next
  case (Cons k ks)
  let ?rows1 = "modify (\<lambda>t. t\<lparr>isDeleted := True\<rparr>) k rows"
  from Cons.prems have r: "markDeleted ks ?rows1 = Inr rows'"
    by (auto split: option.splits)
  have ids1: "map task_id ?rows1 = map task_id rows" by (simp add: ids_modify)
  have set1: "set ?rows1 \<subseteq> set rows \<union> (\<lambda>t. t\<lparr>isDeleted := True\<rparr>) ` set rows"
    using set_modify [of "\<lambda>t. t\<lparr>isDeleted := True\<rparr>" k rows] by auto
  from Cons.IH [OF r] have ih: "map task_id rows' = map task_id ?rows1"
    "set rows' \<subseteq> set ?rows1 \<union> (\<lambda>t. t\<lparr>isDeleted := True\<rparr>) ` set ?rows1"
    by auto
  have "set rows' \<subseteq> set rows \<union> (\<lambda>t. t\<lparr>isDeleted := True\<rparr>) ` set rows"
  proof
    fix t assume "t \<in> set rows'"
    then consider "t \<in> set ?rows1" | u where "u \<in> set ?rows1" "t = u\<lparr>isDeleted := True\<rparr>"
      using ih(2) by auto
    then show "t \<in> set rows \<union> (\<lambda>t. t\<lparr>isDeleted := True\<rparr>) ` set rows"
    proof cases
      case 1
      then show ?thesis using set1 by auto
    next
      case 2
      then consider "u \<in> set rows" | w where "w \<in> set rows" "u = w\<lparr>isDeleted := True\<rparr>"
        using set1 by auto
      then show ?thesis using 2(2) by cases auto
    qed
  qed
  then show ?case using ih(1) ids1 by simp
qed

lemma built_unpopulated: "built rows \<Longrightarrow> t \<in> set rows \<Longrightarrow> unpopulated t"
proof (induction arbitrary: t rule: built.induct)
  case empty
  then show ?case by simp
next
  case (upsert rows e i)
  have "unpopulated (taskOf e i)" by (simp add: unpopulated_def taskOf_def Let_def)
  moreover have "\<And>u. u \<in> set rows \<Longrightarrow> unpopulated (assign (taskOf e i) u)"
    using upsert.IH by (simp add: unpopulated_def assign_def)
  ultimately show ?case using upsert.prems upsert.IH set_create [of "taskOf e i" rows] by auto
next
  case (marked rows ks rows')
  have "\<And>u. u \<in> set rows \<Longrightarrow> unpopulated (u\<lparr>isDeleted := True\<rparr>)"
    using marked.IH by (simp add: unpopulated_def)
  then show ?case using marked.prems marked.IH markDeleted_Inr [OF marked.hyps(2)] by auto
qed

lemma built_distinct: "built rows \<Longrightarrow> distinct (map task_id rows)"
proof (induction rule: built.induct)
  case empty
  then show ?case by simp
next
  case (upsert rows e i)
  then show ?case by (simp add: distinct_create)
next
  case (marked rows ks rows')
  then show ?case using markDeleted_Inr [OF marked.hyps(2)] by simp
qed

lemma built_fold_create: "built rows \<Longrightarrow> built (fold (\<lambda>i. create (taskOf e i)) items rows)"
  by (induction items arbitrary: rows) (auto intro: built.upsert)

lemma built_sync: "built rows \<Longrightarrow> built (sync e p rows)"
proof (cases "allPagesFetched p")
  case False
  assume "built rows"
  then show ?thesis using False by (simp add: sync_not_fetched upserted_def built_fold_create)
next
  case True
  assume b: "built rows"
  let ?r = "\<lparr>realm = upserted e p rows, idArray = map issue_id (feedItems p),
             log = map (\<lambda>i. Upsert (issue_id i)) (feedItems p)\<rparr>"
  from prune_completed [of ?r] obtain rows' where
    r: "prune ?r = (Completed, ?r\<lparr>realm := rows', log := log ?r @ [Tombstone (deletedIdsOf ?r), Completion]\<rparr>)"
    "markDeleted (deletedIdsOf ?r) (realm ?r) = Inr rows'"
    by blast
  have "sync e p rows = rows'" using True r(1) by (simp add: sync_def refreshData_eq Let_def)
  moreover have "built (realm ?r)" using b by (simp add: upserted_def built_fold_create)
  ultimately show ?thesis using r(2) built.marked by blast
qed

lemma create_replaces:
  assumes "distinct (map task_id rows)"
  shows "create p rows =
    (if task_id p \<in> set (map task_id rows)
     then map (\<lambda>t. if task_id t = task_id p then assign p t else t) rows
     else rows @ [p])"
proof (cases "task_id p \<in> set (map task_id rows)")
  case False
  then show ?thesis using objectForPrimaryKey_None [of rows "task_id p"] by (simp add: create_def)
next
  case True
  let ?g = "\<lambda>t. if task_id t = task_id p then assign p t else t"
  have "create p rows = map ?g rows"
  proof (rule rows_eqI)
    show "distinct (map task_id (create p rows))" using assms by (rule distinct_create)
    show "map task_id (create p rows) = map task_id (map ?g rows)"
      using True by (simp add: ids_create comp_def)
    fix k
    have "objectForPrimaryKey (map ?g rows) k = map_option ?g (objectForPrimaryKey rows k)"
      by (rule lookup_map_rows) simp
    then show "objectForPrimaryKey (create p rows) k = objectForPrimaryKey (map ?g rows) k"
      using True objectForPrimaryKey_None [of rows "task_id p"]
      by (cases "objectForPrimaryKey rows k")
         (auto simp: lookup_create dest: objectForPrimaryKey_Some_id)
  qed
  then show ?thesis using True by simp
qed

subsection \<open>The chart query\<close>

lemma insort_key_lex:
  fixes f :: "'a \<Rightarrow> 'k::linorder" and g :: "'a \<Rightarrow> 'j::linorder"
  assumes "sorted_wrt (\<lambda>a b. f a < f b \<or> (f a = f b \<and> g a \<le> g b)) ys"
    and "\<forall>y \<in> set ys. g x \<le> g y"
  shows "sorted_wrt (\<lambda>a b. f a < f b \<or> (f a = f b \<and> g a \<le> g b)) (insort_key f x ys)"
  using assms
proof (induction ys)
  case Nil
  then show ?case by simp
next
  case (Cons y ys)
  show ?case
  proof (cases "f x \<le> f y")
    case True
    have "\<forall>z \<in> set (y # ys). f x < f z \<or> (f x = f z \<and> g x \<le> g z)"
    proof
      fix z assume z: "z \<in> set (y # ys)"
      have "f y \<le> f z" using z Cons.prems(1) by auto
      then have "f x \<le> f z" using True by simp
      moreover have "g x \<le> g z" using z Cons.prems(2) by auto
      ultimately show "f x < f z \<or> (f x = f z \<and> g x \<le> g z)" by auto
    qed
    then show ?thesis using True Cons.prems(1) by simp
  next
    case False
    have "sorted_wrt (\<lambda>a b. f a < f b \<or> (f a = f b \<and> g a \<le> g b)) (insort_key f x ys)"
      using Cons by simp
    then show ?thesis using False Cons.prems(1) by (auto simp: set_insort_key)
  qed
qed

lemma sort_key_lex:
  fixes f :: "'a \<Rightarrow> 'k::linorder" and g :: "'a \<Rightarrow> 'j::linorder"
  assumes "sorted (map g xs)"
  shows "sorted_wrt (\<lambda>a b. f a < f b \<or> (f a = f b \<and> g a \<le> g b)) (sort_key f xs)"
  using assms
proof (induction xs)
  case Nil
  then show ?case by simp
next
  case (Cons x xs)
  have "sorted_wrt (\<lambda>a b. f a < f b \<or> (f a = f b \<and> g a \<le> g b)) (sort_key f xs)"
    using Cons by simp
  moreover have "\<forall>y \<in> set (sort_key f xs). g x \<le> g y" using Cons.prems by simp
  ultimately show ?case by (simp add: insort_key_lex)
qed

lemma chartTasks_sorted:
  "sorted_wrt (\<lambda>a b. map_option collate (label a) < map_option collate (label b) \<or>
                (map_option collate (label a) = map_option collate (label b) \<and>
                 start_date b \<le> start_date a))
     (chartTasks collate rows)"
proof -
  have "sorted (map (\<lambda>t. - start_date t) (sort_key (\<lambda>t. - start_date t) (filter chartFilter rows)))"
    by (rule sorted_sort_key)
  from sort_key_lex [OF this, of "\<lambda>t. map_option collate (label t)"]
  show ?thesis by (simp add: chartTasks_def)
qed

lemma mset_chartTasks:
  "mset (chartTasks collate rows) =
     filter_mset (\<lambda>t. \<not> isDeleted t \<and> state t = ''open'' \<and> end_date t \<noteq> None) (mset rows)"
proof -
  have "chartFilter = (\<lambda>t. \<not> isDeleted t \<and> state t = ''open'' \<and> end_date t \<noteq> None)"
    by (auto simp: chartFilter_def fun_eq_iff)
  then show ?thesis by (simp add: chartTasks_def)
qed

subsection \<open>The example data\<close>

lemma issue_id_exampleIssue [simp]: "issue_id (exampleIssue k b) = k"
  by (simp add: exampleIssue_def)

lemma exampleRows_ids: "map task_id exampleRows = [1, 2, 3]"
  by (simp add: exampleRows_def)

lemma exampleTask_fields [simp]:
  "task_id (exampleTask k l s) = k"
  "label (exampleTask k l s) = l"
  "start_date (exampleTask k l s) = s"
  "end_date (exampleTask k l s) = Some 1491004800000"
  "state (exampleTask k l s) = ''open''"
  "isDeleted (exampleTask k l s) = False"
  by (simp_all add: exampleTask_def taskOf_def Let_def exampleIssue_def)

section \<open>Keywords in the issue body\<close>

text \<open>
  C7: a keyword counts only at index 0 of a line. The test \<open>!line.indexOf(keyword)\<close>
  holds exactly when the keyword is a prefix of the line. For a body one of whose lines
  starts with the due-date keyword and continues with a text that parses as a date,
  \<open>end_date\<close> is that date, provided no later line gives another due date (the last such
  line is the one taken). When no line of the body starts with the due-date keyword,
  \<open>end_date\<close> stays unset, wherever else in a line the keyword text occurs. A line that
  starts with none of the four keywords leaves all the extracted values as they were.
\<close>

theorem keyword_only_at_line_start:
  "(issue_body i = Some b \<and> split_crlf b = before @ l # after \<and>
    prefix (DUE_DATE_STRING e) l \<and>
    parseDate e (drop (length (DUE_DATE_STRING e)) l) = Some d \<and>
    (\<forall>l' \<in> set after. \<not> prefix (DUE_DATE_STRING e) l' \<or>
        parseDate e (drop (length (DUE_DATE_STRING e)) l') = None) \<longrightarrow>
    end_date (taskOf e i) = Some d) \<and>
   (issue_body i = Some b \<and> (\<forall>l \<in> set (split_crlf b). \<not> prefix (DUE_DATE_STRING e) l) \<longrightarrow>
    end_date (taskOf e i) = None) \<and>
   (\<not> prefix (START_DATE_STRING e) line \<and> \<not> prefix (DUE_DATE_STRING e) line \<and>
    \<not> prefix (LABEL_STRING e) line \<and> \<not> prefix (PROGRESS_STRING e) line \<longrightarrow>
    scanLine e lbls line v = v) \<and>
   (indexOf line kw = 0) = prefix kw line"
  using end_date_last_line [of i b before l after e d] end_date_no_line [of i b e]
    scanLine_no_keyword [of e line lbls v] indexOf_zero_iff [of line kw]
  by blast

text \<open>
  A body of three lines: the second starts with the keyword, the third has it in the
  middle of the line, at index 4.
\<close>

theorem keyword_only_at_line_start_witness:
  "issue_body (exampleIssue 1 (Some (''Notes'' @ [CR, LF] @ ''Due: 2017-03-01'' @ [CR, LF] @
       ''see Due: 2017-04-01''))) =
     Some (''Notes'' @ [CR, LF] @ ''Due: 2017-03-01'' @ [CR, LF] @ ''see Due: 2017-04-01'') \<and>
   split_crlf (''Notes'' @ [CR, LF] @ ''Due: 2017-03-01'' @ [CR, LF] @ ''see Due: 2017-04-01'') =
     [''Notes''] @ ''Due: 2017-03-01'' # [''see Due: 2017-04-01''] \<and>
   prefix (DUE_DATE_STRING exampleEnv) ''Due: 2017-03-01'' \<and>
   parseDate exampleEnv (drop (length (DUE_DATE_STRING exampleEnv)) ''Due: 2017-03-01'') =
     Some 1488326400000 \<and>
   \<not> prefix (DUE_DATE_STRING exampleEnv) ''see Due: 2017-04-01'' \<and>
   end_date (taskOf exampleEnv (exampleIssue 1 (Some (''Notes'' @ [CR, LF] @ ''Due: 2017-03-01'' @
       [CR, LF] @ ''see Due: 2017-04-01'')))) = Some 1488326400000 \<and>
   issue_body (exampleIssue 1 (Some ''see Due: 2017-04-01'')) = Some ''see Due: 2017-04-01'' \<and>
   split_crlf ''see Due: 2017-04-01'' = [''see Due: 2017-04-01''] \<and>
   end_date (taskOf exampleEnv (exampleIssue 1 (Some ''see Due: 2017-04-01''))) = None \<and>
   \<not> prefix (START_DATE_STRING exampleEnv) ''see Due: 2017-04-01'' \<and>
   \<not> prefix (LABEL_STRING exampleEnv) ''see Due: 2017-04-01'' \<and>
   \<not> prefix (PROGRESS_STRING exampleEnv) ''see Due: 2017-04-01'' \<and>
   scanLine exampleEnv None ''see Due: 2017-04-01'' (initialLocals (exampleIssue 1 None)) =
     initialLocals (exampleIssue 1 None) \<and>
   indexOf ''see Due: 2017-04-01'' ''Due: '' = 4"
proof -
  let ?b = "''Notes'' @ [CR, LF] @ ''Due: 2017-03-01'' @ [CR, LF] @ ''see Due: 2017-04-01''"
  let ?m = "''see Due: 2017-04-01''"
  have b1: "issue_body (exampleIssue 1 (Some ?b)) = Some ?b" by (simp add: exampleIssue_def)
  have b2: "split_crlf ?b = [''Notes''] @ ''Due: 2017-03-01'' # [?m]"
    by (simp add: CR_def LF_def)
  have b3: "prefix (DUE_DATE_STRING exampleEnv) ''Due: 2017-03-01''" by (simp add: exampleEnv_def)
  have b4: "parseDate exampleEnv (drop (length (DUE_DATE_STRING exampleEnv)) ''Due: 2017-03-01'') =
      Some 1488326400000"
    by (simp add: exampleEnv_def)
  have b5: "\<not> prefix (DUE_DATE_STRING exampleEnv) ?m" by (simp add: exampleEnv_def)
  have m1: "issue_body (exampleIssue 1 (Some ?m)) = Some ?m" by (simp add: exampleIssue_def)
  have m2: "split_crlf ?m = [?m]" by (simp add: CR_def LF_def)
  have m3: "\<not> prefix (START_DATE_STRING exampleEnv) ?m" by (simp add: exampleEnv_def)
  have m4: "\<not> prefix (LABEL_STRING exampleEnv) ?m" by (simp add: exampleEnv_def)
  have m5: "\<not> prefix (PROGRESS_STRING exampleEnv) ?m" by (simp add: exampleEnv_def)
  have ix: "indexOf ?m ''Due: '' = 4" by simp
  have c1: "end_date (taskOf exampleEnv (exampleIssue 1 (Some ?b))) = Some 1488326400000"
    using keyword_only_at_line_start [of "exampleIssue 1 (Some ?b)" ?b "[''Notes'']"
        "''Due: 2017-03-01''" "[?m]" exampleEnv 1488326400000] b1 b2 b3 b4 b5
    by simp
  have c2: "end_date (taskOf exampleEnv (exampleIssue 1 (Some ?m))) = None"
    using keyword_only_at_line_start [of "exampleIssue 1 (Some ?m)" ?m _ _ _ exampleEnv] m1 m2 b5
    by simp
  have c3: "scanLine exampleEnv None ?m (initialLocals (exampleIssue 1 None)) =
      initialLocals (exampleIssue 1 None)"
    using keyword_only_at_line_start [of _ _ _ _ _ exampleEnv _ ?m] b5 m3 m4 m5 by blast
  show ?thesis using b1 b2 b3 b4 b5 m1 m2 m3 m4 m5 ix c1 c2 c3 by blast
qed

text \<open>
  C8, as the claim states it, fails: a due-date line that follows a bare line feed is not
  recognised, while the same line after a carriage return and a line feed is.
\<close>

theorem bare_newline_counterexample:
  "end_date (taskOf exampleEnv (exampleIssue 1 (Some (''Notes'' @ [LF] @ ''Due: 2017-03-01'')))) = None \<and>
   end_date (taskOf exampleEnv (exampleIssue 1 (Some (''Notes'' @ [CR, LF] @ ''Due: 2017-03-01'')))) =
     Some 1488326400000"
  by (simp add: taskOf_fields findKeywords_def exampleIssue_def initialLocals_def CR_def LF_def)
     (simp add: scanLine_def exampleEnv_def)

text \<open>
  C8 (amended): the body is cut into lines at each carriage return that a line feed
  follows, and nowhere else. Joining the lines with such pairs gives the body back, no
  line contains such a pair, the lines of \<open>a\<close>, a pair, \<open>c\<close> are the lines of \<open>a\<close> followed
  by the lines of \<open>c\<close>, and a text without such a pair is one line, whatever bare line
  feeds or carriage returns it has. Every line is tested against the four keywords: the
  last line that starts with the start-date keyword and parses gives \<open>start_date\<close>, the
  last one with the due-date keyword gives \<open>end_date\<close>, the last one with the label keyword
  that names an entry of the issue gives \<open>label\<close>, and the last one with the progress
  keyword gives \<open>progress\<close>. So a due-date line that follows such a pair is extracted,
  and a body without such a pair that does not itself start with a keyword yields no
  metadata at all, also when a keyword follows a bare line feed.
\<close>

theorem lines_split_at_crlf:
  "joinLines (split_crlf s) = s \<and>
   (\<forall>l \<in> set (split_crlf s). \<not> hasCRLF l) \<and>
   split_crlf (a @ CR # LF # c) = split_crlf a @ split_crlf c \<and>
   (\<not> hasCRLF s \<longrightarrow> split_crlf s = [s]) \<and>
   (issue_body i = Some b \<and> split_crlf b = before @ l # after \<and>
    prefix (START_DATE_STRING e) l \<and>
    parseDate e (drop (length (START_DATE_STRING e)) l) = Some d \<and>
    (\<forall>l' \<in> set after. \<not> prefix (START_DATE_STRING e) l' \<or>
        parseDate e (drop (length (START_DATE_STRING e)) l') = None) \<longrightarrow>
    start_date (taskOf e i) = d) \<and>
   (issue_body i = Some b \<and> split_crlf b = before @ l # after \<and>
    prefix (DUE_DATE_STRING e) l \<and>
    parseDate e (drop (length (DUE_DATE_STRING e)) l) = Some d \<and>
    (\<forall>l' \<in> set after. \<not> prefix (DUE_DATE_STRING e) l' \<or>
        parseDate e (drop (length (DUE_DATE_STRING e)) l') = None) \<longrightarrow>
    end_date (taskOf e i) = Some d) \<and>
   (issue_body i = Some b \<and> split_crlf b = before @ l # after \<and> labels i = Some ls \<and>
    prefix (LABEL_STRING e) l \<and> trim e (drop (length (LABEL_STRING e)) l) \<in> name ` set ls \<and>
    (\<forall>l' \<in> set after. \<not> prefix (LABEL_STRING e) l' \<or>
        trim e (drop (length (LABEL_STRING e)) l') \<notin> name ` set ls) \<longrightarrow>
    label (taskOf e i) = Some (trim e (drop (length (LABEL_STRING e)) l))) \<and>
   (issue_body i = Some b \<and> split_crlf b = before @ l # after \<and>
    prefix (PROGRESS_STRING e) l \<and>
    (\<forall>l' \<in> set after. \<not> prefix (PROGRESS_STRING e) l') \<longrightarrow>
    progress (taskOf e i) = sanitizeFloat e (drop (length (PROGRESS_STRING e)) l)) \<and>
   (issue_body i = Some (a @ CR # LF # l) \<and> \<not> hasCRLF l \<and> prefix (DUE_DATE_STRING e) l \<and>
    parseDate e (drop (length (DUE_DATE_STRING e)) l) = Some d \<longrightarrow>
    end_date (taskOf e i) = Some d) \<and>
   (issue_body i = Some b \<and> \<not> hasCRLF b \<and>
    \<not> prefix (START_DATE_STRING e) b \<and> \<not> prefix (DUE_DATE_STRING e) b \<and>
    \<not> prefix (LABEL_STRING e) b \<and> \<not> prefix (PROGRESS_STRING e) b \<longrightarrow>
    findKeywords e i = initialLocals i)"
proof (intro conjI impI ballI)
  show "joinLines (split_crlf s) = s" by (rule joinLines_split_crlf)
  show "\<not> hasCRLF x" if "x \<in> set (split_crlf s)" for x using that by (rule split_crlf_lines)
  show "split_crlf (a @ CR # LF # c) = split_crlf a @ split_crlf c" by (rule split_crlf_append)
  show "split_crlf s = [s]" if "\<not> hasCRLF s" using that by (rule split_crlf_one_line)
next
  assume h: "issue_body i = Some b \<and> split_crlf b = before @ l # after \<and>
    prefix (START_DATE_STRING e) l \<and>
    parseDate e (drop (length (START_DATE_STRING e)) l) = Some d \<and>
    (\<forall>l' \<in> set after. \<not> prefix (START_DATE_STRING e) l' \<or>
        parseDate e (drop (length (START_DATE_STRING e)) l') = None)"
  then have "startDate (fold (scanLine e (labels i)) (before @ l # after) (initialLocals i)) = d"
    by (simp add: startDate_fold_same startDate_scanLine)
  then show "start_date (taskOf e i) = d" using h by (simp add: start_date_taskOf)
next
  assume h: "issue_body i = Some b \<and> split_crlf b = before @ l # after \<and>
    prefix (DUE_DATE_STRING e) l \<and>
    parseDate e (drop (length (DUE_DATE_STRING e)) l) = Some d \<and>
    (\<forall>l' \<in> set after. \<not> prefix (DUE_DATE_STRING e) l' \<or>
        parseDate e (drop (length (DUE_DATE_STRING e)) l') = None)"
  then show "end_date (taskOf e i) = Some d"
    using end_date_last_line [of i b before l after e d] by blast
next
  assume h: "issue_body i = Some b \<and> split_crlf b = before @ l # after \<and> labels i = Some ls \<and>
    prefix (LABEL_STRING e) l \<and> trim e (drop (length (LABEL_STRING e)) l) \<in> name ` set ls \<and>
    (\<forall>l' \<in> set after. \<not> prefix (LABEL_STRING e) l' \<or>
        trim e (drop (length (LABEL_STRING e)) l') \<notin> name ` set ls)"
  have "v_label (fold (scanLine e (Some ls)) (before @ l # after) (initialLocals i)) =
      Some (trim e (drop (length (LABEL_STRING e)) l))"
    using h by (simp add: v_label_fold_same v_label_scanLine)
  then show "label (taskOf e i) = Some (trim e (drop (length (LABEL_STRING e)) l))"
    using h by (simp add: label_taskOf)
next
  assume h: "issue_body i = Some b \<and> split_crlf b = before @ l # after \<and>
    prefix (PROGRESS_STRING e) l \<and>
    (\<forall>l' \<in> set after. \<not> prefix (PROGRESS_STRING e) l')"
  then have "v_progress (fold (scanLine e (labels i)) (before @ l # after) (initialLocals i)) =
      sanitizeFloat e (drop (length (PROGRESS_STRING e)) l)"
    by (simp add: v_progress_fold_same v_progress_scanLine)
  then show "progress (taskOf e i) = sanitizeFloat e (drop (length (PROGRESS_STRING e)) l)"
    using h by (simp add: progress_taskOf)
next
  assume h: "issue_body i = Some (a @ CR # LF # l) \<and> \<not> hasCRLF l \<and>
    prefix (DUE_DATE_STRING e) l \<and> parseDate e (drop (length (DUE_DATE_STRING e)) l) = Some d"
  then have "split_crlf (a @ CR # LF # l) = split_crlf a @ l # []"
    by (simp add: split_crlf_append split_crlf_one_line)
  then show "end_date (taskOf e i) = Some d"
    using h end_date_last_line [of i "a @ CR # LF # l" "split_crlf a" l "[]" e d] by simp
next
  assume h: "issue_body i = Some b \<and> \<not> hasCRLF b \<and>
    \<not> prefix (START_DATE_STRING e) b \<and> \<not> prefix (DUE_DATE_STRING e) b \<and>
    \<not> prefix (LABEL_STRING e) b \<and> \<not> prefix (PROGRESS_STRING e) b"
  then have "split_crlf b = [b]" by (simp add: split_crlf_one_line)
  then show "findKeywords e i = initialLocals i"
    using h by (simp add: findKeywords_def scanLine_no_keyword)
qed

text \<open>
  A body of five lines with one line for each keyword, a due-date line after a carriage
  return and a line feed, and the same line after a bare line feed.
\<close>

theorem lines_split_at_crlf_witness:
  "split_crlf (''Notes'' @ CR # LF # ''Start: 2017-03-01'' @ CR # LF # ''Due: 2017-04-01'' @
       CR # LF # ''Label: bug'' @ CR # LF # ''Progress: 0.5'') =
     [''Notes'', ''Start: 2017-03-01'', ''Due: 2017-04-01'', ''Label: bug'', ''Progress: 0.5''] \<and>
   joinLines [''Notes'', ''Start: 2017-03-01'', ''Due: 2017-04-01'', ''Label: bug'',
       ''Progress: 0.5''] =
     ''Notes'' @ CR # LF # ''Start: 2017-03-01'' @ CR # LF # ''Due: 2017-04-01'' @
       CR # LF # ''Label: bug'' @ CR # LF # ''Progress: 0.5'' \<and>
   \<not> hasCRLF ''Label: bug'' \<and>
   start_date (taskOf exampleEnv (exampleIssue 1 (Some (''Notes'' @ CR # LF # ''Start: 2017-03-01'' @
       CR # LF # ''Due: 2017-04-01'' @ CR # LF # ''Label: bug'' @ CR # LF # ''Progress: 0.5'')))) =
     1488326400000 \<and>
   end_date (taskOf exampleEnv (exampleIssue 1 (Some (''Notes'' @ CR # LF # ''Start: 2017-03-01'' @
       CR # LF # ''Due: 2017-04-01'' @ CR # LF # ''Label: bug'' @ CR # LF # ''Progress: 0.5'')))) =
     Some 1491004800000 \<and>
   label (taskOf exampleEnv (exampleIssue 1 (Some (''Notes'' @ CR # LF # ''Start: 2017-03-01'' @
       CR # LF # ''Due: 2017-04-01'' @ CR # LF # ''Label: bug'' @ CR # LF # ''Progress: 0.5'')))) =
     Some ''bug'' \<and>
   progress (taskOf exampleEnv (exampleIssue 1 (Some (''Notes'' @ CR # LF # ''Start: 2017-03-01'' @
       CR # LF # ''Due: 2017-04-01'' @ CR # LF # ''Label: bug'' @ CR # LF # ''Progress: 0.5'')))) =
     Some (1 / 2) \<and>
   split_crlf (''Notes'' @ CR # LF # ''Due: 2017-03-01'') = [''Notes'', ''Due: 2017-03-01''] \<and>
   end_date (taskOf exampleEnv (exampleIssue 1 (Some (''Notes'' @ CR # LF # ''Due: 2017-03-01'')))) =
     Some 1488326400000 \<and>
   \<not> hasCRLF (''Notes'' @ LF # ''Due: 2017-03-01'') \<and>
   split_crlf (''Notes'' @ LF # ''Due: 2017-03-01'') = [''Notes'' @ LF # ''Due: 2017-03-01''] \<and>
   findKeywords exampleEnv (exampleIssue 1 (Some (''Notes'' @ LF # ''Due: 2017-03-01''))) =
     initialLocals (exampleIssue 1 (Some (''Notes'' @ LF # ''Due: 2017-03-01'')))"
proof -
  let ?B = "''Notes'' @ CR # LF # ''Start: 2017-03-01'' @ CR # LF # ''Due: 2017-04-01'' @
       CR # LF # ''Label: bug'' @ CR # LF # ''Progress: 0.5''"
  let ?x = "''Notes'' @ CR # LF # ''Due: 2017-03-01''"
  let ?y = "''Notes'' @ LF # ''Due: 2017-03-01''"
  let ?ls = "[\<lparr>name = ''bug'', label_color = Some ''d73a4a''\<rparr>,
              \<lparr>name = ''idea'', label_color = None\<rparr>]"
  note join = lines_split_at_crlf [THEN conjunct1]
  note app = lines_split_at_crlf [THEN conjunct2, THEN conjunct2, THEN conjunct1]
  note single = lines_split_at_crlf [THEN conjunct2, THEN conjunct2, THEN conjunct2,
      THEN conjunct1, rule_format]
  note start = lines_split_at_crlf [THEN conjunct2, THEN conjunct2, THEN conjunct2,
      THEN conjunct2, THEN conjunct1, rule_format]
  note due = lines_split_at_crlf [THEN conjunct2, THEN conjunct2, THEN conjunct2,
      THEN conjunct2, THEN conjunct2, THEN conjunct1, rule_format]
  note lab = lines_split_at_crlf [THEN conjunct2, THEN conjunct2, THEN conjunct2,
      THEN conjunct2, THEN conjunct2, THEN conjunct2, THEN conjunct1, rule_format]
  note prog = lines_split_at_crlf [THEN conjunct2, THEN conjunct2, THEN conjunct2,
      THEN conjunct2, THEN conjunct2, THEN conjunct2, THEN conjunct2, THEN conjunct1, rule_format]
  note afterCRLF = lines_split_at_crlf [THEN conjunct2, THEN conjunct2, THEN conjunct2,
      THEN conjunct2, THEN conjunct2, THEN conjunct2, THEN conjunct2, THEN conjunct2,
      THEN conjunct1, rule_format]
  note oneLine = lines_split_at_crlf [THEN conjunct2, THEN conjunct2, THEN conjunct2,
      THEN conjunct2, THEN conjunct2, THEN conjunct2, THEN conjunct2, THEN conjunct2,
      THEN conjunct2, rule_format]
  have n: "\<not> hasCRLF ''Notes''" "\<not> hasCRLF ''Start: 2017-03-01''" "\<not> hasCRLF ''Due: 2017-04-01''"
    "\<not> hasCRLF ''Label: bug''" "\<not> hasCRLF ''Progress: 0.5''" "\<not> hasCRLF ''Due: 2017-03-01''"
    "\<not> hasCRLF ?y"
    by (simp_all add: CR_def LF_def)
  have one: "split_crlf ''Notes'' = [''Notes'']"
    "split_crlf ''Start: 2017-03-01'' = [''Start: 2017-03-01'']"
    "split_crlf ''Due: 2017-04-01'' = [''Due: 2017-04-01'']"
    "split_crlf ''Label: bug'' = [''Label: bug'']"
    "split_crlf ''Progress: 0.5'' = [''Progress: 0.5'']"
    "split_crlf ''Due: 2017-03-01'' = [''Due: 2017-03-01'']"
    "split_crlf ?y = [?y]"
    by (rule single, rule n)+
  have sB: "split_crlf ?B =
      [''Notes'', ''Start: 2017-03-01'', ''Due: 2017-04-01'', ''Label: bug'', ''Progress: 0.5'']"
    by (simp add: CR_def LF_def)
  have jB: "joinLines [''Notes'', ''Start: 2017-03-01'', ''Due: 2017-04-01'', ''Label: bug'',
       ''Progress: 0.5''] = ?B"
    using join [of ?B] by (simp only: sB)
  have "split_crlf ?x = split_crlf ''Notes'' @ split_crlf ''Due: 2017-03-01''" by (rule app)
  then have sx: "split_crlf ?x = [''Notes'', ''Due: 2017-03-01'']" by (simp only: one) simp
  have kw: "START_DATE_STRING exampleEnv = ''Start: ''" "DUE_DATE_STRING exampleEnv = ''Due: ''"
    "LABEL_STRING exampleEnv = ''Label: ''" "PROGRESS_STRING exampleEnv = ''Progress: ''"
    by (simp_all add: exampleEnv_def)
  have tr: "trim exampleEnv ''bug'' = ''bug''"
    by (simp add: exampleEnv_def asciiTrim_def asciiSpace_def)
  have sf: "sanitizeFloat exampleEnv ''0.5'' = Some (1 / 2)" by (simp add: exampleEnv_def)
  have c1: "start_date (taskOf exampleEnv (exampleIssue 1 (Some ?B))) = 1488326400000"
    by (rule start [where b = ?B and before = "[''Notes'']" and l = "''Start: 2017-03-01''"
          and after = "[''Due: 2017-04-01'', ''Label: bug'', ''Progress: 0.5'']"])
       (simp add: exampleIssue_def exampleEnv_def CR_def LF_def asciiTrim_def asciiSpace_def)
  have c2: "end_date (taskOf exampleEnv (exampleIssue 1 (Some ?B))) = Some 1491004800000"
    by (rule due [where b = ?B and before = "[''Notes'', ''Start: 2017-03-01'']"
          and l = "''Due: 2017-04-01''" and after = "[''Label: bug'', ''Progress: 0.5'']"])
       (simp add: exampleIssue_def exampleEnv_def CR_def LF_def asciiTrim_def asciiSpace_def)
  have "label (taskOf exampleEnv (exampleIssue 1 (Some ?B))) =
      Some (trim exampleEnv (drop (length (LABEL_STRING exampleEnv)) ''Label: bug''))"
    by (rule lab [where b = ?B
          and before = "[''Notes'', ''Start: 2017-03-01'', ''Due: 2017-04-01'']"
          and after = "[''Progress: 0.5'']" and ls = ?ls])
       (simp add: exampleIssue_def exampleEnv_def CR_def LF_def asciiTrim_def asciiSpace_def)
  then have c3: "label (taskOf exampleEnv (exampleIssue 1 (Some ?B))) = Some ''bug''"
    by (simp add: kw tr)
  have "progress (taskOf exampleEnv (exampleIssue 1 (Some ?B))) =
      sanitizeFloat exampleEnv (drop (length (PROGRESS_STRING exampleEnv)) ''Progress: 0.5'')"
    by (rule prog [where b = ?B
          and before = "[''Notes'', ''Start: 2017-03-01'', ''Due: 2017-04-01'', ''Label: bug'']"
          and after = "[]"])
       (simp add: exampleIssue_def exampleEnv_def CR_def LF_def asciiTrim_def asciiSpace_def)
  then have c4: "progress (taskOf exampleEnv (exampleIssue 1 (Some ?B))) = Some (1 / 2)"
    by (simp add: kw sf)
  have c5: "end_date (taskOf exampleEnv (exampleIssue 1 (Some ?x))) = Some 1488326400000"
    by (rule afterCRLF [where a = "''Notes''" and l = "''Due: 2017-03-01''"])
       (simp add: exampleIssue_def exampleEnv_def CR_def LF_def asciiTrim_def asciiSpace_def)
  have c6: "findKeywords exampleEnv (exampleIssue 1 (Some ?y)) =
      initialLocals (exampleIssue 1 (Some ?y))"
    by (rule oneLine [where b = ?y]) (simp add: exampleIssue_def exampleEnv_def CR_def LF_def asciiTrim_def asciiSpace_def)
  show ?thesis
    by (intro conjI) (rule sB jB n(4) c1 c2 c3 c4 sx c5 n(7) one(7) c6)+
qed

text \<open>
  C4, as the claim states it, fails: a label keyword that names a label entry without a
  color is honored all the same; \<open>label\<close> is set and \<open>color\<close> stays unset.
\<close>

theorem label_without_color_counterexample:
  "label (taskOf exampleEnv (exampleIssue 1 (Some ''Label: idea''))) = Some ''idea'' \<and>
   color (taskOf exampleEnv (exampleIssue 1 (Some ''Label: idea''))) = None"
  by (simp add: taskOf_fields findKeywords_def exampleIssue_def initialLocals_def CR_def LF_def)
     (simp add: scanLine_def exampleEnv_def asciiTrim_def asciiSpace_def)

text \<open>
  C4 (amended): whenever \<open>label\<close> is unset, \<open>color\<close> is unset. A label that is set is the
  name of a label entry of the issue, and when the entries of the issue that carry this
  name have a color, \<open>color\<close> is set too. A label keyword is honored whenever the text
  after it, trimmed, is the name of an entry of the issue, with or without a color: the
  last such line of the body gives the label. \<open>color\<close> stays unset when no label line of
  the body names an entry that has a color.
\<close>

theorem label_and_color:
  "(label (taskOf e i) = None \<longrightarrow> color (taskOf e i) = None) \<and>
   (label (taskOf e i) = Some n \<longrightarrow> (\<exists>ls. labels i = Some ls \<and> n \<in> name ` set ls)) \<and>
   (label (taskOf e i) = Some n \<and> labels i = Some ls \<and>
    (\<forall>a \<in> set ls. name a = n \<longrightarrow> label_color a \<noteq> None) \<longrightarrow>
    color (taskOf e i) \<noteq> None) \<and>
   (issue_body i = Some b \<and> split_crlf b = before @ l # after \<and> labels i = Some ls \<and>
    prefix (LABEL_STRING e) l \<and> trim e (drop (length (LABEL_STRING e)) l) \<in> name ` set ls \<and>
    (\<forall>l' \<in> set after. \<not> prefix (LABEL_STRING e) l' \<or>
        trim e (drop (length (LABEL_STRING e)) l') \<notin> name ` set ls) \<longrightarrow>
    label (taskOf e i) = Some (trim e (drop (length (LABEL_STRING e)) l))) \<and>
   (issue_body i = Some b \<and> labels i = Some ls \<and>
    (\<forall>l' \<in> set (split_crlf b). \<forall>a \<in> set ls.
        prefix (LABEL_STRING e) l' \<and> name a = trim e (drop (length (LABEL_STRING e)) l') \<longrightarrow>
        label_color a = None) \<longrightarrow>
    color (taskOf e i) = None)"
proof (intro conjI impI)
  note inv = labelInv_findKeywords [of i e]
  show "color (taskOf e i) = None" if "label (taskOf e i) = None"
    using inv that by (simp add: labelInv_def taskOf_fields)
  show "\<exists>ls. labels i = Some ls \<and> n \<in> name ` set ls" if "label (taskOf e i) = Some n"
    using inv that by (auto simp: labelInv_def taskOf_fields)
  show "color (taskOf e i) \<noteq> None"
    if "label (taskOf e i) = Some n \<and> labels i = Some ls \<and>
        (\<forall>a \<in> set ls. name a = n \<longrightarrow> label_color a \<noteq> None)"
    using inv that by (auto simp: labelInv_def taskOf_fields)
next
  assume h: "issue_body i = Some b \<and> split_crlf b = before @ l # after \<and> labels i = Some ls \<and>
    prefix (LABEL_STRING e) l \<and> trim e (drop (length (LABEL_STRING e)) l) \<in> name ` set ls \<and>
    (\<forall>l' \<in> set after. \<not> prefix (LABEL_STRING e) l' \<or>
        trim e (drop (length (LABEL_STRING e)) l') \<notin> name ` set ls)"
  have "v_label (fold (scanLine e (Some ls)) (before @ l # after) (initialLocals i)) =
      Some (trim e (drop (length (LABEL_STRING e)) l))"
    using h by (simp add: v_label_fold_same v_label_scanLine)
  then show "label (taskOf e i) = Some (trim e (drop (length (LABEL_STRING e)) l))"
    using h by (simp add: taskOf_fields findKeywords_def)
next
  assume h: "issue_body i = Some b \<and> labels i = Some ls \<and>
    (\<forall>l' \<in> set (split_crlf b). \<forall>a \<in> set ls.
        prefix (LABEL_STRING e) l' \<and> name a = trim e (drop (length (LABEL_STRING e)) l') \<longrightarrow>
        label_color a = None)"
  have "v_color (fold (scanLine e (labels i)) (split_crlf b) (initialLocals i)) =
      v_color (initialLocals i)"
    by (rule v_color_fold_same) (use h in auto)
  then show "color (taskOf e i) = None"
    using h by (simp add: taskOf_fields findKeywords_def initialLocals_def)
qed

text \<open>
  An issue with the entries \<open>bug\<close> (with a color) and \<open>idea\<close> (without one): no label
  line, a label line for \<open>bug\<close>, and a label line for \<open>idea\<close>.
\<close>

theorem label_and_color_witness:
  "label (taskOf exampleEnv (exampleIssue 1 None)) = None \<and>
   color (taskOf exampleEnv (exampleIssue 1 None)) = None \<and>
   labels (exampleIssue 1 (Some ''Label: bug'')) =
     Some [\<lparr>name = ''bug'', label_color = Some ''d73a4a''\<rparr>,
           \<lparr>name = ''idea'', label_color = None\<rparr>] \<and>
   label (taskOf exampleEnv (exampleIssue 1 (Some ''Label: bug''))) = Some ''bug'' \<and>
   ''bug'' \<in> name ` set [\<lparr>name = ''bug'', label_color = Some ''d73a4a''\<rparr>,
                          \<lparr>name = ''idea'', label_color = None\<rparr>] \<and>
   label_color \<lparr>name = ''bug'', label_color = Some ''d73a4a''\<rparr> \<noteq> None \<and>
   name \<lparr>name = ''idea'', label_color = None\<rparr> \<noteq> ''bug'' \<and>
   color (taskOf exampleEnv (exampleIssue 1 (Some ''Label: bug''))) = Some ''#D73A4A'' \<and>
   issue_body (exampleIssue 1 (Some ''Label: idea'')) = Some ''Label: idea'' \<and>
   split_crlf ''Label: idea'' = [] @ ''Label: idea'' # [] \<and>
   prefix (LABEL_STRING exampleEnv) ''Label: idea'' \<and>
   trim exampleEnv (drop (length (LABEL_STRING exampleEnv)) ''Label: idea'') = ''idea'' \<and>
   ''idea'' \<in> name ` set [\<lparr>name = ''bug'', label_color = Some ''d73a4a''\<rparr>,
                           \<lparr>name = ''idea'', label_color = None\<rparr>] \<and>
   label (taskOf exampleEnv (exampleIssue 1 (Some ''Label: idea''))) = Some ''idea'' \<and>
   label_color \<lparr>name = ''idea'', label_color = None\<rparr> = None \<and>
   name \<lparr>name = ''bug'', label_color = Some ''d73a4a''\<rparr> \<noteq> ''idea'' \<and>
   color (taskOf exampleEnv (exampleIssue 1 (Some ''Label: idea''))) = None"
proof -
  let ?bug = "\<lparr>name = ''bug'', label_color = Some ''d73a4a''\<rparr>"
  let ?idea = "\<lparr>name = ''idea'', label_color = None\<rparr>"
  let ?ib = "exampleIssue 1 (Some ''Label: bug'')"
  let ?ii = "exampleIssue 1 (Some ''Label: idea'')"
  have up: "asciiUpperCase ''d73a4a'' = ''D73A4A''" by code_simp
  have tr: "trim exampleEnv (drop (length (LABEL_STRING exampleEnv)) ''Label: idea'') = ''idea''"
    by (simp add: exampleEnv_def asciiTrim_def asciiSpace_def)
  have l0: "label (taskOf exampleEnv (exampleIssue 1 None)) = None"
    by (simp add: taskOf_fields findKeywords_def exampleIssue_def initialLocals_def)
  have c0: "color (taskOf exampleEnv (exampleIssue 1 None)) = None"
    using label_and_color [of exampleEnv "exampleIssue 1 None"] l0 by blast
  have lsb: "labels ?ib = Some [?bug, ?idea]" by (simp add: exampleIssue_def)
  have lsi: "labels ?ii = Some [?bug, ?idea]" by (simp add: exampleIssue_def)
  have l1: "label (taskOf exampleEnv ?ib) = Some ''bug''"
    by (simp add: taskOf_fields findKeywords_def exampleIssue_def initialLocals_def CR_def LF_def)
       (simp add: scanLine_def exampleEnv_def asciiTrim_def asciiSpace_def)
  have m1: "''bug'' \<in> name ` set [?bug, ?idea]"
    using label_and_color [of exampleEnv ?ib "''bug''"] l1 lsb by auto
  have q1: "\<forall>a \<in> set [?bug, ?idea]. name a = ''bug'' \<longrightarrow> label_color a \<noteq> None" by simp
  have "color (taskOf exampleEnv ?ib) \<noteq> None"
    using label_and_color [of exampleEnv ?ib "''bug''" "[?bug, ?idea]"] l1 lsb q1 by blast
  moreover have "color (taskOf exampleEnv ?ib) = None \<or>
      color (taskOf exampleEnv ?ib) = Some ''#D73A4A''"
    by (simp add: taskOf_fields findKeywords_def exampleIssue_def initialLocals_def CR_def LF_def)
       (simp add: scanLine_def exampleEnv_def asciiTrim_def asciiSpace_def up)
  ultimately have c1: "color (taskOf exampleEnv ?ib) = Some ''#D73A4A''" by auto
  have b2: "issue_body ?ii = Some ''Label: idea''" by (simp add: exampleIssue_def)
  have s2: "split_crlf ''Label: idea'' = [] @ ''Label: idea'' # []" by (simp add: CR_def LF_def)
  have p2: "prefix (LABEL_STRING exampleEnv) ''Label: idea''" by (simp add: exampleEnv_def)
  have m2: "''idea'' \<in> name ` set [?bug, ?idea]" by simp
  have l2: "label (taskOf exampleEnv ?ii) = Some ''idea''"
    using label_and_color [of exampleEnv ?ii _ "[?bug, ?idea]" "''Label: idea''" "[]"
        "''Label: idea''" "[]"] b2 s2 lsi p2 m2
    by (simp add: tr)
  have q2: "\<forall>l' \<in> set (split_crlf ''Label: idea''). \<forall>a \<in> set [?bug, ?idea].
        prefix (LABEL_STRING exampleEnv) l' \<and>
        name a = trim exampleEnv (drop (length (LABEL_STRING exampleEnv)) l') \<longrightarrow>
        label_color a = None"
    using s2 tr by simp
  have c2: "color (taskOf exampleEnv ?ii) = None"
    using label_and_color [of exampleEnv ?ii _ "[?bug, ?idea]" "''Label: idea''"] b2 lsi q2
    by blast
  show ?thesis using l0 c0 lsb l1 m1 c1 b2 s2 p2 tr m2 l2 c2 by simp
qed

section \<open>Upserting an issue\<close>

text \<open>
  C3: the upsert is keyed on the id and replaces the full record. In every table the
  program builds, when a record with the id of the issue exists, \<open>realm.create\<close> puts the
  record built from the issue in its place and leaves every other record as it is: the
  ids of the table, their number and their order stay the same and no id occurs twice.
  Every field of the stored record is the one computed from the issue, with \<open>isDeleted\<close>
  false, also when the old record was a tombstone. The same record is stored after a
  whole run in which this issue is the last one of the feed with its id.
\<close>

theorem upsert_replaces_record:
  assumes "built rows" and "objectForPrimaryKey rows (issue_id i) = Some old"
  shows "create (taskOf e i) rows =
           map (\<lambda>t. if task_id t = issue_id i then taskOf e i else t) rows \<and>
         map task_id (create (taskOf e i) rows) = map task_id rows \<and>
         objectForPrimaryKey (create (taskOf e i) rows) (issue_id i) = Some (taskOf e i) \<and>
         isDeleted (taskOf e i) = False \<and>
         distinct (map task_id (create (taskOf e i) rows)) \<and>
         built (create (taskOf e i) rows) \<and>
         (latest (feedItems p) (issue_id i) = Some i \<longrightarrow>
            objectForPrimaryKey (sync e p rows) (issue_id i) = Some (taskOf e i)) \<and>
         built (sync e p rows)"
proof -
  have d: "distinct (map task_id rows)" using assms(1) by (rule built_distinct)
  have u: "unpopulated old"
    using assms built_unpopulated objectForPrimaryKey_Some_id by blast
  have a: "assign (taskOf e i) old = taskOf e i"
    using u by (simp add: unpopulated_def assign_eq taskOf_def Let_def)
  have "\<And>t. t \<in> set rows \<Longrightarrow> assign (taskOf e i) t = taskOf e i"
    using assms(1) built_unpopulated
    by (simp add: unpopulated_def assign_eq taskOf_def Let_def)
  then have g: "map (\<lambda>t. if task_id t = issue_id i then assign (taskOf e i) t else t) rows =
      map (\<lambda>t. if task_id t = issue_id i then taskOf e i else t) rows"
    by simp
  have m: "issue_id i \<in> set (map task_id rows)"
    using assms(2) objectForPrimaryKey_None [of rows "issue_id i"] by auto
  have 1: "create (taskOf e i) rows =
      map (\<lambda>t. if task_id t = issue_id i then taskOf e i else t) rows"
    using create_replaces [OF d, of "taskOf e i"] m g by simp
  have 2: "map task_id (create (taskOf e i) rows) = map task_id rows"
    using m by (simp add: ids_create)
  have 3: "objectForPrimaryKey (create (taskOf e i) rows) (issue_id i) = Some (taskOf e i)"
    using assms(2) a by (simp add: lookup_create)
  have 4: "distinct (map task_id (create (taskOf e i) rows))" using d by (rule distinct_create)
  have 5: "built (create (taskOf e i) rows)" using assms(1) by (rule built.upsert)
  have 6: "latest (feedItems p) (issue_id i) = Some i \<Longrightarrow>
      objectForPrimaryKey (sync e p rows) (issue_id i) = Some (taskOf e i)"
    using assms(2) a by (simp add: lookup_sync)
  have 7: "built (sync e p rows)" using assms(1) by (rule built_sync)
  show ?thesis using 1 2 3 4 5 6 7 by simp
qed

text \<open>
  A table the program has built, whose record with id 2 is a tombstone, is upserted
  from an issue with id 2 that now has a due date.
\<close>

theorem upsert_replaces_record_witness:
  "built exampleTombstonedRows \<and>
   objectForPrimaryKey exampleTombstonedRows (issue_id (exampleIssue 2 (Some ''Due: 2017-03-01''))) =
     Some ((taskOf exampleEnv (exampleIssue 2 None))\<lparr>isDeleted := True\<rparr>) \<and>
   create (taskOf exampleEnv (exampleIssue 2 (Some ''Due: 2017-03-01''))) exampleTombstonedRows =
     [taskOf exampleEnv (exampleIssue 2 (Some ''Due: 2017-03-01''))] \<and>
   isDeleted (taskOf exampleEnv (exampleIssue 2 (Some ''Due: 2017-03-01''))) = False \<and>
   end_date (taskOf exampleEnv (exampleIssue 2 (Some ''Due: 2017-03-01''))) = Some 1488326400000 \<and>
   end_date (taskOf exampleEnv (exampleIssue 2 None)) = None \<and>
   latest (feedItems (Final [exampleIssue 2 (Some ''Due: 2017-03-01'')]))
     (issue_id (exampleIssue 2 (Some ''Due: 2017-03-01''))) =
     Some (exampleIssue 2 (Some ''Due: 2017-03-01'')) \<and>
   objectForPrimaryKey
     (sync exampleEnv (Final [exampleIssue 2 (Some ''Due: 2017-03-01'')]) exampleTombstonedRows)
     (issue_id (exampleIssue 2 (Some ''Due: 2017-03-01''))) =
     Some (taskOf exampleEnv (exampleIssue 2 (Some ''Due: 2017-03-01'')))"
proof -
  let ?i = "exampleIssue 2 (Some ''Due: 2017-03-01'')"
  let ?old = "(taskOf exampleEnv (exampleIssue 2 None))\<lparr>isDeleted := True\<rparr>"
  have b0: "built (create (taskOf exampleEnv (exampleIssue 2 None)) [])"
    by (rule built.upsert) (rule built.empty)
  have m: "markDeleted [2] (create (taskOf exampleEnv (exampleIssue 2 None)) []) =
      Inr exampleTombstonedRows"
    by (simp add: create_def objectForPrimaryKey_def exampleTombstonedRows_def)
  have b: "built exampleTombstonedRows" using b0 m by (rule built.marked)
  have h: "objectForPrimaryKey exampleTombstonedRows (issue_id ?i) = Some ?old"
    by (simp add: exampleTombstonedRows_def objectForPrimaryKey_def)
  have l: "latest (feedItems (Final [?i])) (issue_id ?i) = Some ?i" by simp
  have d1: "end_date (taskOf exampleEnv ?i) = Some 1488326400000"
    by (simp add: taskOf_fields findKeywords_def exampleIssue_def initialLocals_def CR_def LF_def)
       (simp add: scanLine_def exampleEnv_def)
  have d2: "end_date (taskOf exampleEnv (exampleIssue 2 None)) = None"
    by (simp add: taskOf_fields findKeywords_def exampleIssue_def initialLocals_def)
  note t = upsert_replaces_record [OF b h, of exampleEnv "Final [?i]"]
  have c1: "create (taskOf exampleEnv ?i) exampleTombstonedRows = [taskOf exampleEnv ?i]"
    using t [THEN conjunct1] by (simp add: exampleTombstonedRows_def)
  have c2: "isDeleted (taskOf exampleEnv ?i) = False" using t by blast
  have c3: "objectForPrimaryKey (sync exampleEnv (Final [?i]) exampleTombstonedRows) (issue_id ?i) =
      Some (taskOf exampleEnv ?i)"
    using t l by blast
  show ?thesis
    by (intro conjI) (rule b h c1 c2 d1 d2 l c3)+
qed

section \<open>A sync run\<close>

text \<open>
  C6: the pruning step runs once, after the upserts of every page, and only when the
  last page was reached. When every fetch resolves, the log of the run is the upserts of
  all pages in feed order, then one tombstone write whose ids are the ids of the table
  that no page delivered, then the completion call; the tombstone write does not raise.
  When a fetch is rejected, the run stops with the upserts of the pages it visited: the
  log has no tombstone write and no completion call, and every record that is marked
  deleted afterwards is a record of the table before the run, unchanged.
\<close>

theorem reconciliation_after_last_page:
  "(allPagesFetched p \<longrightarrow>
      (\<exists>rows'. refreshData e p rows =
         (Completed,
          \<lparr>realm = rows', idArray = map issue_id (feedItems p),
           log = map (\<lambda>i. Upsert (issue_id i)) (feedItems p) @
                 [Tombstone (filter (\<lambda>k. k \<notin> set (map issue_id (feedItems p)))
                               (map task_id (upserted e p rows))),
                  Completion]\<rparr>) \<and>
         markDeleted (filter (\<lambda>k. k \<notin> set (map issue_id (feedItems p)))
                        (map task_id (upserted e p rows)))
           (upserted e p rows) = Inr rows')) \<and>
   (\<not> allPagesFetched p \<longrightarrow>
      refreshData e p rows =
        (Fetch_rejected,
         \<lparr>realm = upserted e p rows, idArray = map issue_id (feedItems p),
          log = map (\<lambda>i. Upsert (issue_id i)) (feedItems p)\<rparr>) \<and>
      (\<forall>t \<in> set (upserted e p rows). isDeleted t \<longrightarrow> t \<in> set rows))"
proof (intro conjI impI)
  let ?r = "\<lparr>realm = upserted e p rows, idArray = map issue_id (feedItems p),
             log = map (\<lambda>i. Upsert (issue_id i)) (feedItems p)\<rparr>"
  assume f: "allPagesFetched p"
  from prune_completed [of ?r] obtain rows' where
    r: "prune ?r = (Completed, ?r\<lparr>realm := rows', log := log ?r @ [Tombstone (deletedIdsOf ?r), Completion]\<rparr>)"
    "markDeleted (deletedIdsOf ?r) (realm ?r) = Inr rows'"
    by blast
  have "refreshData e p rows = prune ?r" using f by (simp add: refreshData_eq Let_def)
  then show "\<exists>rows'. refreshData e p rows =
         (Completed,
          \<lparr>realm = rows', idArray = map issue_id (feedItems p),
           log = map (\<lambda>i. Upsert (issue_id i)) (feedItems p) @
                 [Tombstone (filter (\<lambda>k. k \<notin> set (map issue_id (feedItems p)))
                               (map task_id (upserted e p rows))),
                  Completion]\<rparr>) \<and>
         markDeleted (filter (\<lambda>k. k \<notin> set (map issue_id (feedItems p)))
                        (map task_id (upserted e p rows)))
           (upserted e p rows) = Inr rows'"
    using r by (simp add: deletedIdsOf_def)
next
  assume "\<not> allPagesFetched p"
  then show "refreshData e p rows =
        (Fetch_rejected,
         \<lparr>realm = upserted e p rows, idArray = map issue_id (feedItems p),
          log = map (\<lambda>i. Upsert (issue_id i)) (feedItems p)\<rparr>)"
    by (simp add: refreshData_eq Let_def)
next
  show "\<forall>t \<in> set (upserted e p rows). isDeleted t \<longrightarrow> t \<in> set rows"
    using deleted_after_upserts [of _ e "feedItems p" rows] by (auto simp: upserted_def)
qed

text \<open>A run over two pages, and a run whose second fetch is rejected.\<close>

theorem reconciliation_after_last_page_witness:
  "allPagesFetched examplePages \<and>
   fst (refreshData exampleEnv examplePages exampleRows) = Completed \<and>
   log (snd (refreshData exampleEnv examplePages exampleRows)) =
     [Upsert 1, Upsert 3, Tombstone [2], Completion] \<and>
   \<not> allPagesFetched exampleBrokenPages \<and>
   refreshData exampleEnv exampleBrokenPages exampleTombstonedRows =
     (Fetch_rejected,
      \<lparr>realm = [(taskOf exampleEnv (exampleIssue 2 None))\<lparr>isDeleted := True\<rparr>,
                taskOf exampleEnv (exampleIssue 1 (Some ''Due: 2017-03-01'')),
                taskOf exampleEnv (exampleIssue 3 None)],
       idArray = [1, 3], log = [Upsert 1, Upsert 3]\<rparr>) \<and>
   (taskOf exampleEnv (exampleIssue 2 None))\<lparr>isDeleted := True\<rparr>
     \<in> set (upserted exampleEnv exampleBrokenPages exampleTombstonedRows) \<and>
   isDeleted ((taskOf exampleEnv (exampleIssue 2 None))\<lparr>isDeleted := True\<rparr>) \<and>
   (taskOf exampleEnv (exampleIssue 2 None))\<lparr>isDeleted := True\<rparr> \<in> set exampleTombstonedRows"
proof -
  let ?t = "(taskOf exampleEnv (exampleIssue 2 None))\<lparr>isDeleted := True\<rparr>"
  have a: "allPagesFetched examplePages" by (simp add: examplePages_def)
  have b: "\<not> allPagesFetched exampleBrokenPages" by (simp add: exampleBrokenPages_def)
  have u1: "map task_id (upserted exampleEnv examplePages exampleRows) = [1, 2, 3]"
    by (simp add: upserted_def examplePages_def exampleRows_def create_def objectForPrimaryKey_def)
  have u2: "upserted exampleEnv exampleBrokenPages exampleTombstonedRows =
      [?t, taskOf exampleEnv (exampleIssue 1 (Some ''Due: 2017-03-01'')),
       taskOf exampleEnv (exampleIssue 3 None)]"
    by (simp add: upserted_def exampleBrokenPages_def exampleTombstonedRows_def create_def
        objectForPrimaryKey_def)
  have f1: "map issue_id (feedItems examplePages) = [1, 3]" by (simp add: examplePages_def)
  have f2: "map issue_id (feedItems exampleBrokenPages) = [1, 3]"
    by (simp add: exampleBrokenPages_def)
  note t1 = reconciliation_after_last_page [of examplePages exampleEnv exampleRows]
  note t2 = reconciliation_after_last_page [of exampleBrokenPages exampleEnv exampleTombstonedRows]
  from t1 a obtain rows' where
    "refreshData exampleEnv examplePages exampleRows =
       (Completed,
        \<lparr>realm = rows', idArray = map issue_id (feedItems examplePages),
         log = map (\<lambda>i. Upsert (issue_id i)) (feedItems examplePages) @
               [Tombstone (filter (\<lambda>k. k \<notin> set (map issue_id (feedItems examplePages)))
                             (map task_id (upserted exampleEnv examplePages exampleRows))),
                Completion]\<rparr>)"
    by blast
  then have c1: "fst (refreshData exampleEnv examplePages exampleRows) = Completed"
    and c2: "log (snd (refreshData exampleEnv examplePages exampleRows)) =
      [Upsert 1, Upsert 3, Tombstone [2], Completion]"
    by (simp_all add: u1 f1) (simp_all add: examplePages_def)
  from t2 b have c3: "refreshData exampleEnv exampleBrokenPages exampleTombstonedRows =
        (Fetch_rejected,
         \<lparr>realm = upserted exampleEnv exampleBrokenPages exampleTombstonedRows,
          idArray = map issue_id (feedItems exampleBrokenPages),
          log = map (\<lambda>i. Upsert (issue_id i)) (feedItems exampleBrokenPages)\<rparr>)"
    by blast
  have c4: "?t \<in> set (upserted exampleEnv exampleBrokenPages exampleTombstonedRows)"
    by (simp only: u2) simp
  have c5: "isDeleted ?t" by simp
  from t2 b c4 c5 have c6: "?t \<in> set exampleTombstonedRows" by blast
  have c7: "map (\<lambda>i. Upsert (issue_id i)) (feedItems exampleBrokenPages) = [Upsert 1, Upsert 3]"
    by (simp add: exampleBrokenPages_def)
  show ?thesis using a b c1 c2 c3 c4 c5 c6 by (simp only: u2 f2 c7) simp
qed

text \<open>
  C2: a table with unique primary keys holds the ids 1, 2 and 3, and the pages of a run
  that reaches the last page deliver exactly the ids 1 and 3. The run completes; the
  table afterwards holds the same ids in the same order, so no record was removed; the
  record with id 2 is marked deleted and the records with ids 1 and 3 are not.
\<close>

theorem tombstone_reconciliation:
  assumes "distinct (map task_id rows)"
    and "set (map task_id rows) = {1, 2, 3}"
    and "allPagesFetched p"
    and "set (map issue_id (feedItems p)) = {1, 3}"
  shows "fst (refreshData e p rows) = Completed \<and>
         map task_id (sync e p rows) = map task_id rows \<and>
         (\<forall>t \<in> set (sync e p rows). isDeleted t = (task_id t = 2))"
proof -
  have sub: "set (map issue_id (feedItems p)) \<subseteq> set (map task_id rows)"
    using assms(2,4) by simp
  have ids: "map task_id (sync e p rows) = map task_id rows"
    using ids_fold_create_known [OF sub] by (simp add: ids_sync upserted_def)
  have "isDeleted t = (task_id t = 2)" if t: "t \<in> set (sync e p rows)" for t
  proof -
    have "task_id t \<in> set (map task_id rows)" using t ids by (metis image_eqI list.set_map)
    then have k: "task_id t = 1 \<or> task_id t = 2 \<or> task_id t = 3" using assms(2) by auto
    have look: "objectForPrimaryKey (sync e p rows) (task_id t) = Some t"
      using t assms(1) by (simp add: objectForPrimaryKey_distinct distinct_sync)
    show ?thesis
    proof (cases "latest (feedItems p) (task_id t)")
      case None
      then have "task_id t \<notin> {1, 3}" using latest_None [of "feedItems p" "task_id t"] assms(4) by simp
      then have "task_id t = 2" using k by auto
      moreover have "isDeleted t"
        using look None assms(3) by (auto simp: lookup_sync)
      ultimately show ?thesis by simp
    next
      case (Some i)
      then have "task_id t \<in> {1, 3}"
        using latest_None [of "feedItems p" "task_id t"] assms(4) by auto
      then have "task_id t \<noteq> 2" by auto
      moreover have "\<not> isDeleted t"
        using look Some by (auto simp: lookup_sync split: option.splits)
      ultimately show ?thesis by simp
    qed
  qed
  then show ?thesis using ids sync_fetched(1) [OF assms(3)] by simp
qed

theorem tombstone_reconciliation_witness:
  "distinct (map task_id exampleRows) \<and> set (map task_id exampleRows) = {1, 2, 3} \<and>
   allPagesFetched examplePages \<and> set (map issue_id (feedItems examplePages)) = {1, 3} \<and>
   fst (refreshData exampleEnv examplePages exampleRows) = Completed \<and>
   map task_id (sync exampleEnv examplePages exampleRows) = [1, 2, 3] \<and>
   map isDeleted (sync exampleEnv examplePages exampleRows) = [False, True, False]"
proof -
  let ?s = "sync exampleEnv examplePages exampleRows"
  have 1: "distinct (map task_id exampleRows)" by (simp add: exampleRows_ids)
  have 2: "set (map task_id exampleRows) = {1, 2, 3}" by (simp add: exampleRows_ids)
  have 3: "allPagesFetched examplePages" by (simp add: examplePages_def)
  have 4: "set (map issue_id (feedItems examplePages)) = {1, 3}" by (simp add: examplePages_def)
  note t = tombstone_reconciliation [OF 1 2 3 4, of exampleEnv]
  have ids: "map task_id ?s = [1, 2, 3]" using t by (simp add: exampleRows_ids)
  have "map isDeleted ?s = map (\<lambda>t. task_id t = 2) ?s" using t by simp
  also have "\<dots> = map (\<lambda>k. k = 2) (map task_id ?s)" by (simp add: comp_def)
  also have "\<dots> = [False, True, False]" by (simp only: ids) simp
  finally have del: "map isDeleted ?s = [False, True, False]" .
  show ?thesis using 1 2 3 4 t ids del by simp
qed

text \<open>
  C1: on a table with unique primary keys, a second run over the same pages leaves the
  table exactly as the first run left it: the same records with the same fields, in the
  same order. The primary keys stay unique, and both runs end in the same way.
\<close>

theorem sync_twice_is_sync_once:
  assumes "distinct (map task_id rows)"
  shows "sync e p (sync e p rows) = sync e p rows \<and>
         distinct (map task_id (sync e p rows)) \<and>
         fst (refreshData e p (sync e p rows)) = fst (refreshData e p rows)"
  using assms by (simp add: sync_sync distinct_sync fst_refreshData)

theorem sync_twice_is_sync_once_witness:
  "distinct (map task_id exampleRows) \<and>
   sync exampleEnv examplePages (sync exampleEnv examplePages exampleRows) =
     sync exampleEnv examplePages exampleRows \<and>
   map task_id (sync exampleEnv examplePages exampleRows) = [1, 2, 3]"
proof -
  have d: "distinct (map task_id exampleRows)" by (simp add: exampleRows_ids)
  have "map task_id (sync exampleEnv examplePages exampleRows) = [1, 2, 3]"
    by (simp add: sync_def refreshData_def examplePages_def exampleRows_def prune_def
        create_def objectForPrimaryKey_def Let_def)
  then show ?thesis using d sync_twice_is_sync_once [OF d, of exampleEnv examplePages] by simp
qed

section \<open>The chart query\<close>

text \<open>
  C5: for every table, the query of \<open>getTaskChartData\<close> returns exactly the rows that are
  not deleted, whose state is \<open>open\<close> and whose \<open>end_date\<close> is set, each as often as the
  table holds it. The result is ordered by label ascending (an unset label first) and,
  among rows of equal label, by \<open>start_date\<close> descending. A row that is deleted, or not
  open, or without \<open>end_date\<close> is not in the result, whatever its other fields. The rows
  of the chart data are these tasks in this order.
\<close>

theorem chart_query:
  "mset (chartTasks collate rows) =
     filter_mset (\<lambda>t. \<not> isDeleted t \<and> state t = ''open'' \<and> end_date t \<noteq> None) (mset rows) \<and>
   sorted_wrt (\<lambda>a b. map_option collate (label a) < map_option collate (label b) \<or>
                 (map_option collate (label a) = map_option collate (label b) \<and>
                  start_date b \<le> start_date a))
     (chartTasks collate rows) \<and>
   (isDeleted t \<or> state t \<noteq> ''open'' \<or> end_date t = None \<longrightarrow>
      t \<notin> set (chartTasks collate rows)) \<and>
   map row_id (getTaskChartData collate dateFormat rows) = map task_id (chartTasks collate rows)"
proof (intro conjI)
  show m: "mset (chartTasks collate rows) =
     filter_mset (\<lambda>t. \<not> isDeleted t \<and> state t = ''open'' \<and> end_date t \<noteq> None) (mset rows)"
    by (rule mset_chartTasks)
  show "sorted_wrt (\<lambda>a b. map_option collate (label a) < map_option collate (label b) \<or>
                 (map_option collate (label a) = map_option collate (label b) \<and>
                  start_date b \<le> start_date a))
     (chartTasks collate rows)"
    by (rule chartTasks_sorted)
  have "set (chartTasks collate rows) =
      {t \<in> set rows. \<not> isDeleted t \<and> state t = ''open'' \<and> end_date t \<noteq> None}"
    using arg_cong [OF m, of set_mset] by simp
  then show "isDeleted t \<or> state t \<noteq> ''open'' \<or> end_date t = None \<longrightarrow>
      t \<notin> set (chartTasks collate rows)"
    by auto
  show "map row_id (getTaskChartData collate dateFormat rows) = map task_id (chartTasks collate rows)"
    by (simp add: getTaskChartData_def formattedTask_def comp_def)
qed

text \<open>Seven rows, of which one is closed, one deleted and one without a due date.\<close>

theorem chart_query_witness:
  "state ((exampleTask 4 (Some ''a'') 7)\<lparr>state := ''closed''\<rparr>) \<noteq> ''open'' \<and>
   (exampleTask 4 (Some ''a'') 7)\<lparr>state := ''closed''\<rparr>
     \<notin> set (chartTasks exampleCollate exampleChartRows) \<and>
   isDeleted ((exampleTask 5 None 2)\<lparr>isDeleted := True\<rparr>) \<and>
   (exampleTask 5 None 2)\<lparr>isDeleted := True\<rparr> \<notin> set (chartTasks exampleCollate exampleChartRows) \<and>
   end_date ((exampleTask 6 None 3)\<lparr>end_date := None\<rparr>) = None \<and>
   (exampleTask 6 None 3)\<lparr>end_date := None\<rparr> \<notin> set (chartTasks exampleCollate exampleChartRows) \<and>
   map task_id (chartTasks exampleCollate exampleChartRows) = [7, 2, 1, 3] \<and>
   map label (chartTasks exampleCollate exampleChartRows) = [None, Some ''x'', Some ''x'', Some ''y''] \<and>
   map start_date (chartTasks exampleCollate exampleChartRows) = [4, 10, 5, 1]"
proof -
  let ?c = "(exampleTask 4 (Some ''a'') 7)\<lparr>state := ''closed''\<rparr>"
  let ?d = "(exampleTask 5 None 2)\<lparr>isDeleted := True\<rparr>"
  let ?n = "(exampleTask 6 None 3)\<lparr>end_date := None\<rparr>"
  have c: "state ?c \<noteq> ''open''" by simp
  have d: "isDeleted ?d" by simp
  have n: "end_date ?n = None" by simp
  have c': "?c \<notin> set (chartTasks exampleCollate exampleChartRows)"
    using chart_query [of exampleCollate exampleChartRows ?c] c by blast
  have d': "?d \<notin> set (chartTasks exampleCollate exampleChartRows)"
    using chart_query [of exampleCollate exampleChartRows ?d] d by blast
  have n': "?n \<notin> set (chartTasks exampleCollate exampleChartRows)"
    using chart_query [of exampleCollate exampleChartRows ?n] n by blast
  have q: "chartTasks exampleCollate exampleChartRows =
      [exampleTask 7 None 4, exampleTask 2 (Some ''x'') 10, exampleTask 1 (Some ''x'') 5,
       exampleTask 3 (Some ''y'') 1]"
    by (simp add: chartTasks_def exampleChartRows_def chartFilter_def exampleCollate_def)
  show ?thesis using c d n c' d' n' by (simp only: q) simp
qed

section \<open>The write that marks deleted tasks\<close>



section \<open>The issue URL of a task\<close>



end
